theory Spec2Isabelle
  imports Main
begin

section \<open>Python strings\<close>

text \<open>
  A Python \<open>str\<close> is a sequence of Unicode code points, so a string is modelled as a list
  of code points (natural numbers), not of bytes. \<open>lit\<close> turns an ASCII literal of the
  source into that list.
\<close>

type_synonym pystr = "nat list"

definition lit :: "string \<Rightarrow> pystr" where
  "lit s = map of_char s"

text \<open>
  The character classes of the \<open>re\<close> module on a \<open>str\<close> pattern are Unicode aware: \<open>\w\<close> is
  every alphanumeric code point (\<open>str.isalnum\<close>) and the underscore, \<open>\d\<close> every decimal
  digit (category Nd). On ASCII both are written out below. Beyond ASCII they are tables of
  the Python runtime, which is not part of this repository: they are parameters of the
  model, read only on code points from 128 on.
\<close>

record ucd =
  isalnum_hi :: "nat \<Rightarrow> bool"
  isdecimal_hi :: "nat \<Rightarrow> bool"

definition ascii_digit :: "nat \<Rightarrow> bool" where
  "ascii_digit c = (48 \<le> c \<and> c \<le> 57)"

definition ascii_alpha :: "nat \<Rightarrow> bool" where
  "ascii_alpha c = ((65 \<le> c \<and> c \<le> 90) \<or> (97 \<le> c \<and> c \<le> 122))"

definition re_word :: "ucd \<Rightarrow> nat \<Rightarrow> bool" where
  \<comment> \<open>\<open>\w\<close>\<close>
  "re_word U c = (if c < 128 then ascii_alpha c \<or> ascii_digit c \<or> c = 95 else isalnum_hi U c)"

definition re_digit :: "ucd \<Rightarrow> nat \<Rightarrow> bool" where
  \<comment> \<open>\<open>\d\<close>\<close>
  "re_digit U c = (if c < 128 then ascii_digit c else isdecimal_hi U c)"

definition py_isspace :: "nat \<Rightarrow> bool" where
  \<comment> \<open>\<open>str.isspace\<close> on one code point; the class \<open>\s\<close> of \<open>re\<close> is the same set\<close>
  "py_isspace c = ((9 \<le> c \<and> c \<le> 13) \<or> (28 \<le> c \<and> c \<le> 32) \<or> c = 133 \<or> c = 160 \<or> c = 5760
     \<or> (8192 \<le> c \<and> c \<le> 8202) \<or> c = 8232 \<or> c = 8233 \<or> c = 8239 \<or> c = 8287 \<or> c = 12288)"

text \<open>
  The two tables on the code points below 256 (the Latin-1 supplement has letters, the
  superscript digits and the vulgar fractions as alphanumerics, and no decimal digit).
  Concrete inputs are evaluated with it; they stay within that range.
\<close>

definition latin1 :: ucd where
  "latin1 = \<lparr> isalnum_hi = (\<lambda>c. c \<in> {170, 178, 179, 181, 185, 186, 188, 189, 190}
                    \<or> (192 \<le> c \<and> c \<le> 255 \<and> c \<noteq> 215 \<and> c \<noteq> 247)),
              isdecimal_hi = (\<lambda>c. False) \<rparr>"

subsection \<open>The string methods the module calls\<close>

fun rfind_from :: "nat \<Rightarrow> int \<Rightarrow> pystr \<Rightarrow> int" where
  "rfind_from c i [] = - 1"
| "rfind_from c i (x # xs) =
     (let r = rfind_from c (i + 1) xs in if r \<noteq> - 1 then r else if x = c then i else - 1)"

definition py_rfind :: "pystr \<Rightarrow> nat \<Rightarrow> int" where
  \<comment> \<open>\<open>s.rfind(c)\<close> for a one-character \<open>c\<close>: the highest index of \<open>c\<close>, or -1\<close>
  "py_rfind s c = rfind_from c 0 s"

definition basename :: "pystr \<Rightarrow> pystr" where
  \<comment> \<open>\<open>os.path.basename\<close> of posixpath: \<open>i = p.rfind('/') + 1; return p[i:]\<close>\<close>
  "basename p = (let i = py_rfind p 47 + 1 in drop (nat i) p)"

definition py_lstrip :: "pystr \<Rightarrow> pystr \<Rightarrow> pystr" where
  "py_lstrip s chars = dropWhile (\<lambda>c. c \<in> set chars) s"

definition py_rstrip :: "pystr \<Rightarrow> pystr \<Rightarrow> pystr" where
  "py_rstrip s chars = rev (dropWhile (\<lambda>c. c \<in> set chars) (rev s))"

definition py_strip :: "pystr \<Rightarrow> pystr \<Rightarrow> pystr" where
  "py_strip s chars = py_rstrip (py_lstrip s chars) chars"

definition py_strip_ws :: "pystr \<Rightarrow> pystr" where
  \<comment> \<open>\<open>s.strip()\<close> without an argument: white space goes\<close>
  "py_strip_ws s = rev (dropWhile py_isspace (rev (dropWhile py_isspace s)))"

definition re_sub_class :: "(nat \<Rightarrow> bool) \<Rightarrow> pystr \<Rightarrow> pystr \<Rightarrow> pystr" where
  \<comment> \<open>\<open>re.sub(cls, repl, s)\<close> for a pattern that is one character class: every code point
      of the class is replaced, the others are kept\<close>
  "re_sub_class cls repl s = concat (map (\<lambda>c. if cls c then repl else [c]) s)"

definition ascii_lower :: "nat \<Rightarrow> nat" where
  "ascii_lower c = (if 65 \<le> c \<and> c \<le> 90 then c + 32 else c)"

definition py_lower :: "pystr \<Rightarrow> pystr" where
  \<comment> \<open>\<open>s.lower()\<close> as far as a comparison with an ASCII literal made of \<open>.\<close>, \<open>c\<close>, \<open>s\<close>
      and \<open>v\<close> can see: ASCII capitals are folded. The runtime also lowers capitals beyond ASCII,
      never to one of these four characters, so the test \<open>endswith(".csv")\<close> is the same.\<close>
  "py_lower s = map ascii_lower s"

definition py_endswith :: "pystr \<Rightarrow> pystr \<Rightarrow> bool" where
  "py_endswith s suffix =
     (length suffix \<le> length s \<and> drop (length s - length suffix) s = suffix)"

function py_replace :: "pystr \<Rightarrow> pystr \<Rightarrow> pystr \<Rightarrow> pystr" where
  "py_replace s old new =
     (if old = [] then new @ concat (map (\<lambda>c. c # new) s)
      else if s = [] then []
      else if take (length old) s = old then new @ py_replace (drop (length old) s) old new
      else hd s # py_replace (tl s) old new)"
  by pat_completeness auto
termination
  by (relation "measure (\<lambda>(s, old, new). length s)") auto

declare py_replace.simps [simp del]

fun py_split :: "pystr \<Rightarrow> nat \<Rightarrow> pystr list" where
  \<comment> \<open>\<open>s.split(sep)\<close> for a one-character separator: never an empty list\<close>
  "py_split [] sep = [[]]"
| "py_split (x # xs) sep =
     (if x = sep then [] # py_split xs sep
      else (case py_split xs sep of [] \<Rightarrow> [[x]] | p # ps \<Rightarrow> (x # p) # ps))"

fun py_join :: "pystr \<Rightarrow> pystr list \<Rightarrow> pystr" where
  "py_join sep [] = []"
| "py_join sep [p] = p"
| "py_join sep (p # q # ps) = p @ sep @ py_join sep (q # ps)"

definition path_join :: "pystr \<Rightarrow> pystr \<Rightarrow> pystr" where
  \<comment> \<open>\<open>os.path.join(a, b)\<close> of posixpath\<close>
  "path_join a b =
     (if b \<noteq> [] \<and> hd b = 47 then b
      else if a = [] \<or> last a = 47 then a @ b
      else a @ lit ''/'' @ b)"

definition truthy :: "pystr option \<Rightarrow> bool" where
  \<comment> \<open>\<open>if x:\<close> on a value that is a string or \<open>None\<close>\<close>
  "truthy x = (case x of None \<Rightarrow> False | Some s \<Rightarrow> s \<noteq> [])"

section \<open>PathSanitizer\<close>

definition sanitize_filename :: "ucd \<Rightarrow> pystr \<Rightarrow> pystr" where
  "sanitize_filename U filename =
     (let filename = basename filename;
          filename = re_sub_class (\<lambda>c. \<not> (re_word U c \<or> c = 45 \<or> c = 46)) (lit ''_'') filename;
          filename = py_lstrip filename (lit ''.'');
          filename = (if filename = [] then lit ''export'' else filename);
          filename = (if \<not> py_endswith (py_lower filename) (lit ''.csv'')
                      then filename @ lit ''.csv'' else filename)
      in filename)"

definition sanitize_part :: "ucd \<Rightarrow> pystr \<Rightarrow> pystr" where
  \<comment> \<open>the two assignments to \<open>part\<close> in the loop body\<close>
  "sanitize_part U part =
     (let part = re_sub_class (\<lambda>c. \<not> (re_word U c \<or> c = 45)) (lit ''_'') part;
          part = py_strip part (lit ''_'')
      in part)"

definition sanitize_subfolder :: "ucd \<Rightarrow> pystr \<Rightarrow> pystr" where
  "sanitize_subfolder U subfolder =
     (let subfolder = py_replace subfolder (lit ''..'') [];
          subfolder = py_strip subfolder (lit ''/'');
          parts = py_split subfolder 47;
          sanitized_parts =
            fold (\<lambda>part acc. let part = sanitize_part U part
                              in if part \<noteq> [] then acc @ [part] else acc) parts []
      in if sanitized_parts \<noteq> [] then py_join (lit ''/'') sanitized_parts
         else lit ''sql_exports'')"

subsection \<open>The sanitizers as the specification words them\<close>

text \<open>
  The specification describes \<open>sanitizeFilename\<close> by its effect: the directory component goes,
  every character outside a whitelist becomes an underscore, leading dots go, an empty
  result becomes \<open>export\<close>, and \<open>.csv\<close> is appended unless the name ends in it in some
  letter case. The whitelist is a parameter, so that the one the specification names and
  the one the code applies can both be put in.
\<close>

definition csv_suffix_ci :: "pystr \<Rightarrow> bool" where
  "csv_suffix_ci s =
     (4 \<le> length s \<and>
      (let t = drop (length s - 4) s
       in t ! 0 = 46 \<and> (t ! 1 = 99 \<or> t ! 1 = 67) \<and> (t ! 2 = 115 \<or> t ! 2 = 83)
          \<and> (t ! 3 = 118 \<or> t ! 3 = 86)))"

definition sanitizeFilename_spec :: "(nat \<Rightarrow> bool) \<Rightarrow> pystr \<Rightarrow> pystr" where
  "sanitizeFilename_spec allowed name =
     (let stripped = rev (takeWhile (\<lambda>c. c \<noteq> 47) (rev name));
          replaced = map (\<lambda>c. if allowed c then c else 95) stripped;
          undotted = dropWhile (\<lambda>c. c = 46) replaced;
          nonempty = (if undotted = [] then lit ''export'' else undotted)
      in if csv_suffix_ci nonempty then nonempty else nonempty @ lit ''.csv'')"

definition filename_whitelist :: "nat \<Rightarrow> bool" where
  \<comment> \<open>\<open>[A-Za-z0-9_.-]\<close>\<close>
  "filename_whitelist c = (ascii_alpha c \<or> ascii_digit c \<or> c = 95 \<or> c = 46 \<or> c = 45)"

definition filename_class :: "ucd \<Rightarrow> nat \<Rightarrow> bool" where
  \<comment> \<open>\<open>[\w.-]\<close>\<close>
  "filename_class U c = (re_word U c \<or> c = 46 \<or> c = 45)"

definition full_csv :: "ucd \<Rightarrow> pystr \<Rightarrow> bool" where
  \<comment> \<open>the whole string is \<open>[\w.-]+\<close> followed by \<open>.csv\<close>, in lower case\<close>
  "full_csv U s =
     (4 < length s \<and> drop (length s - 4) s = lit ''.csv''
      \<and> list_all (filename_class U) (take (length s - 4) s))"

definition matches_csv_pattern :: "ucd \<Rightarrow> pystr \<Rightarrow> bool" where
  \<comment> \<open>\<open>^[\w.-]+\.csv$\<close>; \<open>$\<close> also matches before a newline that ends the string\<close>
  "matches_csv_pattern U s = (full_csv U s \<or> (s \<noteq> [] \<and> last s = 10 \<and> full_csv U (butlast s)))"

definition matches_csv_pattern_ci :: "ucd \<Rightarrow> pystr \<Rightarrow> bool" where
  \<comment> \<open>the same pattern with the letters of the suffix in either ASCII case\<close>
  "matches_csv_pattern_ci U s =
     (4 < length s \<and> csv_suffix_ci s \<and> list_all (filename_class U) (take (length s - 4) s))"

text \<open>
  \<open>sanitizeSubfolder\<close> in the specification's words: the \<open>..\<close> substrings go, slashes are
  trimmed at both ends, and each segment between slashes is sanitized; the empty segments
  are dropped, the others joined again, and \<open>sql_exports\<close> stands in when none is left.
  What is done to one segment is a parameter.
\<close>

fun remove_dotdot :: "pystr \<Rightarrow> pystr" where
  "remove_dotdot (a # b # xs) =
     (if a = 46 \<and> b = 46 then remove_dotdot xs else a # remove_dotdot (b # xs))"
| "remove_dotdot xs = xs"

definition trim :: "nat \<Rightarrow> pystr \<Rightarrow> pystr" where
  "trim c s = rev (dropWhile (\<lambda>x. x = c) (rev (dropWhile (\<lambda>x. x = c) s)))"

definition whitelist_segment :: "(nat \<Rightarrow> bool) \<Rightarrow> pystr \<Rightarrow> pystr" where
  "whitelist_segment allowed seg = map (\<lambda>c. if allowed c then c else 95) seg"

definition sanitizeSubfolder_spec :: "(pystr \<Rightarrow> pystr) \<Rightarrow> pystr \<Rightarrow> pystr" where
  "sanitizeSubfolder_spec clean path =
     (let segments = py_split (trim 47 (remove_dotdot path)) 47;
          kept = filter (\<lambda>seg. seg \<noteq> []) (map clean segments)
      in if kept = [] then lit ''sql_exports'' else py_join (lit ''/'') kept)"

definition subfolder_class :: "ucd \<Rightarrow> nat \<Rightarrow> bool" where
  \<comment> \<open>\<open>[\w-]\<close>\<close>
  "subfolder_class U c = (re_word U c \<or> c = 45)"

section \<open>LimitResolver\<close>

text \<open>
  Modelled from the spec: the enumeration \<open>LimitingFactor\<close> is declared in a module that is
  not among the sources; the specification lists its values as NONE, QUERY, DROPDOWN and
  QUERY_AND_DROPDOWN.
\<close>

datatype limiting_factor = NONE | QUERY | DROPDOWN | QUERY_AND_DROPDOWN

text \<open>
  A parsed statement is used for one thing, \<open>get_limit_value()\<close>, which returns an integer or
  \<open>None\<close>. A query record carries the fields the command reads.
\<close>

datatype statement = Statement (get_limit_value: "int option")

record query =
  select_sql :: "pystr option"
  executed_sql :: pystr
  limiting_factor :: limiting_factor
  engine :: pystr
  results_key :: "pystr option"

datatype error_type = RESULTS_BACKEND_ERROR | QUERY_SECURITY_ACCESS_ERROR | GENERIC_BACKEND_ERROR

datatype exn =
    SupersetErrorException error_type nat
  | KeyError
  | IndexError
  | Raised pystr

type_synonym row = "pystr list"

record cursor =
  keys :: "pystr list"
  pending :: "row list"
  fetch_error :: "exn option"

record table =
  columns :: "pystr list"
  data :: "row list"

text \<open>
  The collaborators of the command: the runtime's Unicode tables, the expanded \<open>~/work\<close>,
  the stored queries by client id (the column is unique), the access check, the statement
  parser, the database connection, the file system and the results backend. Each is a
  function that returns its result or the exception it raises. A cursor holds the rows the
  database still has to deliver and the exception, if any, that the fetch after the last
  of them raises.
\<close>

record env =
  tables :: ucd
  work_dir :: pystr
  queries :: "pystr \<rightharpoonup> query"
  access_denied :: "query \<Rightarrow> bool"
  parse_script :: "pystr \<Rightarrow> pystr \<Rightarrow> exn + statement list"
  connect_error :: "exn option"
  execute_scalar :: "pystr \<Rightarrow> exn + int"
  execute :: "pystr \<Rightarrow> exn + cursor"
  makedirs_error :: "pystr \<Rightarrow> exn option"
  open_error :: "pystr \<Rightarrow> exn option"
  write_error :: "row \<Rightarrow> exn option"
  results_backend :: "(pystr \<Rightarrow> exn + pystr option) option"
  deserialize :: "pystr \<Rightarrow> exn + table"
  get_df :: "pystr \<Rightarrow> exn + table"

definition py_last :: "'a list \<Rightarrow> exn + 'a" where
  \<comment> \<open>\<open>xs[-1]\<close>\<close>
  "py_last xs = (if xs = [] then Inl IndexError else Inr (last xs))"

definition get_sql_and_limit :: "env \<Rightarrow> query \<Rightarrow> exn + (pystr \<times> int option)" where
  "get_sql_and_limit E q =
     (if truthy (select_sql q) then Inr (case select_sql q of Some s \<Rightarrow> s | None \<Rightarrow> [], None)
      else
        let sql = executed_sql q in
        case parse_script E sql (engine q) of
          Inl e \<Rightarrow> Inl e
        | Inr statements \<Rightarrow>
            (case py_last statements of
               Inl e \<Rightarrow> Inl e
             | Inr stmt \<Rightarrow>
                 (case get_limit_value stmt of
                    None \<Rightarrow> Inr (sql, None)
                  | Some limit \<Rightarrow>
                      if limiting_factor q \<in> {QUERY, DROPDOWN, QUERY_AND_DROPDOWN}
                      then Inr (sql, Some (limit - 1))
                      else Inr (sql, Some limit))))"

subsection \<open>Stripping the LIMIT clause\<close>

text \<open>
  The streaming exporter removes the clause with
  \<open>re.sub(r'\s+LIMIT\s+\d+(\s+OFFSET\s+\d+)?(\s*;?\s*)$', r'\2', sql, flags=re.IGNORECASE)\<close>.
  Under \<open>IGNORECASE\<close> a letter of the pattern matches both its ASCII cases, and \<open>I\<close>, \<open>S\<close> and
  \<open>K\<close> also match U+0130 and U+0131, U+017F, and U+212A.

  Neighbouring parts of the pattern match disjoint sets of characters (white space, the
  letter L or O, a digit, the semicolon), so a greedy run that is followed by a mismatch
  cannot be repaired by giving characters back: the matcher takes each run whole. The
  second group ends at the end of the string (a final newline is white space and belongs
  to the group), so the match, when there is one, reaches the end and the group is all
  that follows the digits. \<open>re.sub\<close> replaces the leftmost match: the first position from
  which the pattern matches.
\<close>

definition ci_letter :: "nat \<Rightarrow> nat \<Rightarrow> bool" where
  \<comment> \<open>the ASCII letter \<open>p\<close> of the pattern matches the code point \<open>c\<close>\<close>
  "ci_letter p c =
     (ascii_lower c = ascii_lower p
      \<or> (ascii_lower p = 105 \<and> (c = 304 \<or> c = 305))
      \<or> (ascii_lower p = 115 \<and> c = 383)
      \<or> (ascii_lower p = 107 \<and> c = 8490))"

fun match_word :: "pystr \<Rightarrow> pystr \<Rightarrow> pystr option" where
  \<comment> \<open>the letters of a word of the pattern, in order; what follows them\<close>
  "match_word [] s = Some s"
| "match_word (p # ps) [] = None"
| "match_word (p # ps) (c # cs) = (if ci_letter p c then match_word ps cs else None)"

definition match_run :: "(nat \<Rightarrow> bool) \<Rightarrow> pystr \<Rightarrow> pystr option" where
  \<comment> \<open>one or more characters of a class, as many as there are; what follows them\<close>
  "match_run cls s = (if s \<noteq> [] \<and> cls (hd s) then Some (dropWhile cls s) else None)"

definition match_keyword_number :: "ucd \<Rightarrow> pystr \<Rightarrow> pystr \<Rightarrow> pystr option" where
  \<comment> \<open>\<open>\s+KEYWORD\s+\d+\<close>\<close>
  "match_keyword_number U keyword s =
     (case match_run py_isspace s of
        None \<Rightarrow> None
      | Some s1 \<Rightarrow>
          (case match_word keyword s1 of
             None \<Rightarrow> None
           | Some s2 \<Rightarrow>
               (case match_run py_isspace s2 of
                  None \<Rightarrow> None
                | Some s3 \<Rightarrow> match_run (re_digit U) s3)))"

definition match_end :: "pystr \<Rightarrow> bool" where
  \<comment> \<open>\<open>\s*;?\s*$\<close> matches all of \<open>s\<close>\<close>
  "match_end s =
     (let s1 = dropWhile py_isspace s;
          s2 = (if s1 \<noteq> [] \<and> hd s1 = 59 then tl s1 else s1)
      in dropWhile py_isspace s2 = [])"

definition match_limit :: "ucd \<Rightarrow> pystr \<Rightarrow> pystr option" where
  \<comment> \<open>the whole pattern from the start of \<open>s\<close>: the text of group 2 when it matches\<close>
  "match_limit U s =
     (case match_keyword_number U (lit ''LIMIT'') s of
        None \<Rightarrow> None
      | Some s1 \<Rightarrow>
          (case match_keyword_number U (lit ''OFFSET'') s1 of
             Some s2 \<Rightarrow> if match_end s2 then Some s2 else None
           | None \<Rightarrow> if match_end s1 then Some s1 else None))"

fun strip_limit :: "ucd \<Rightarrow> pystr \<Rightarrow> pystr" where
  "strip_limit U [] = []"
| "strip_limit U (c # cs) =
     (case match_limit U (c # cs) of
        Some group2 \<Rightarrow> group2
      | None \<Rightarrow> c # strip_limit U cs)"

subsection \<open>The LIMIT clause as the pattern describes it\<close>





section \<open>ProgressTracker and the state of the process\<close>

record progress_entry =
  processed :: int
  total :: int
  status :: pystr

record SaveToWorkspaceResult =
  result_status :: pystr
  path :: pystr
  row_count :: int

text \<open>
  The state the command works on: the module-level \<open>_progress_store\<close>, the directories
  created and the files written (a file is the list of the records written to it, the
  header being the first). \<open>trace\<close> is a ghost field: every assignment into the store
  appends the store it leaves, so the trace lists what a poll between two steps of an
  export can see.
\<close>

record world =
  progress_store :: "pystr \<rightharpoonup> progress_entry"
  trace :: "(pystr \<rightharpoonup> progress_entry) list"
  dirs :: "pystr set"
  files :: "pystr \<rightharpoonup> row list"

definition STREAMING_BATCH_SIZE :: nat where
  "STREAMING_BATCH_SIZE = 10000"

definition get_export_progress :: "world \<Rightarrow> pystr \<Rightarrow> progress_entry option" where
  "get_export_progress w client_id = progress_store w client_id"

definition store_write :: "world \<Rightarrow> (pystr \<rightharpoonup> progress_entry) \<Rightarrow> world" where
  "store_write w store = w\<lparr>progress_store := store, trace := trace w @ [store]\<rparr>"

definition start_progress :: "world \<Rightarrow> pystr \<Rightarrow> world" where
  \<comment> \<open>\<open>_progress_store[client_id] = {"processed": 0, "total": -1, "status": "counting"}\<close>\<close>
  "start_progress w client_id =
     store_write w ((progress_store w)(client_id \<mapsto>
       \<lparr>processed = 0, total = - 1, status = lit ''counting''\<rparr>))"

definition set_entry :: "world \<Rightarrow> pystr \<Rightarrow> (progress_entry \<Rightarrow> progress_entry) \<Rightarrow> exn + world" where
  \<comment> \<open>\<open>_progress_store[client_id][key] = value\<close>: a missing client id is a \<open>KeyError\<close>\<close>
  "set_entry w client_id f =
     (case progress_store w client_id of
        None \<Rightarrow> Inl KeyError
      | Some entry \<Rightarrow> Inr (store_write w ((progress_store w)(client_id \<mapsto> f entry))))"

section \<open>ExportCoordinator: validation and destination\<close>

record command =
  client_id :: pystr
  filename :: pystr
  subfolder :: pystr
  streaming :: bool

definition init_command :: "ucd \<Rightarrow> pystr \<Rightarrow> pystr \<Rightarrow> pystr \<Rightarrow> bool \<Rightarrow> command" where
  \<comment> \<open>\<open>__init__\<close>\<close>
  "init_command U cid fname sub strm =
     \<lparr>client_id = cid, filename = sanitize_filename U fname,
      subfolder = sanitize_subfolder U sub, streaming = strm\<rparr>"

definition validate :: "env \<Rightarrow> command \<Rightarrow> exn + query" where
  "validate E cmd =
     (case queries E (client_id cmd) of
        None \<Rightarrow> Inl (SupersetErrorException RESULTS_BACKEND_ERROR 404)
      | Some q \<Rightarrow>
          if access_denied E q then Inl (SupersetErrorException QUERY_SECURITY_ACCESS_ERROR 403)
          else Inr q)"

definition get_workspace_path :: "env \<Rightarrow> command \<Rightarrow> world \<Rightarrow> (exn + pystr) \<times> world" where
  "get_workspace_path E cmd w =
     (let full_dir =
            (if subfolder cmd = [] \<or> py_strip_ws (subfolder cmd) = []
             then work_dir E
             else path_join (work_dir E) (subfolder cmd))
      in case makedirs_error E full_dir of
           Some e \<Rightarrow> (Inl e, w)
         | None \<Rightarrow>
             (Inr (path_join full_dir (filename cmd)), w\<lparr>dirs := insert full_dir (dirs w)\<rparr>))"

section \<open>StandardExporter\<close>

definition py_slice_to :: "int \<Rightarrow> 'a list \<Rightarrow> 'a list" where
  \<comment> \<open>\<open>xs[:n]\<close>: a negative \<open>n\<close> counts from the end\<close>
  "py_slice_to n xs = (if 0 \<le> n then take (nat n) xs else take (length xs - nat (- n)) xs)"

definition load_table :: "env \<Rightarrow> query \<Rightarrow> exn + table" where
  \<comment> \<open>the data frame of \<open>_save_from_cache\<close>: the cached payload, or the query run again\<close>
  "load_table E q =
     (case (case results_backend E of
              None \<Rightarrow> Inr None
            | Some backend_get \<Rightarrow>
                if truthy (results_key q)
                then backend_get (case results_key q of Some k \<Rightarrow> k | None \<Rightarrow> [])
                else Inr None) of
        Inl e \<Rightarrow> Inl e
      | Inr blob \<Rightarrow>
          if truthy blob then deserialize E (case blob of Some b \<Rightarrow> b | None \<Rightarrow> [])
          else
            (case get_sql_and_limit E q of
               Inl e \<Rightarrow> Inl e
             | Inr (sql, limit) \<Rightarrow>
                 (case get_df E sql of
                    Inl e \<Rightarrow> Inl e
                  | Inr df \<Rightarrow>
                      (case limit of
                         None \<Rightarrow> Inr df
                       | Some n \<Rightarrow> Inr (df\<lparr>data := py_slice_to n (data df)\<rparr>)))))"

definition save_from_cache ::
  "env \<Rightarrow> query \<Rightarrow> pystr \<Rightarrow> world \<Rightarrow> (exn + SaveToWorkspaceResult) \<times> world" where
  "save_from_cache E q filepath w =
     (case load_table E q of
        Inl e \<Rightarrow> (Inl e, w)
      | Inr df \<Rightarrow>
          (case open_error E filepath of
             Some e \<Rightarrow> (Inl e, w)
           | None \<Rightarrow>
               (Inr \<lparr>result_status = lit ''success'', path = filepath,
                     row_count = int (length (data df))\<rparr>,
                w\<lparr>files := (files w)(filepath \<mapsto> columns df # data df)\<rparr>)))"

section \<open>StreamingExporter\<close>

definition streaming_sql :: "query \<Rightarrow> ucd \<Rightarrow> pystr \<Rightarrow> int option \<Rightarrow> statement list \<Rightarrow> pystr" where
  \<comment> \<open>the statement \<open>if script.statements: ...\<close> that rebinds \<open>sql\<close>\<close>
  "streaming_sql q U sql limit statements =
     (if statements \<noteq> [] then
        (if truthy (select_sql q) then (case select_sql q of Some s \<Rightarrow> s | None \<Rightarrow> [])
         else if limit \<noteq> None then strip_limit U sql
         else sql)
      else sql)"

definition count_sql :: "pystr \<Rightarrow> pystr" where
  "count_sql sql = lit ''SELECT COUNT(*) as count FROM ('' @ sql @ lit '') as subquery''"

definition count_rows :: "env \<Rightarrow> pystr \<Rightarrow> pystr \<Rightarrow> world \<Rightarrow> (exn + unit) \<times> world" where
  \<comment> \<open>the \<open>try\<close> statement around the count query, with its handler\<close>
  "count_rows E cid sql w =
     (case (case execute_scalar E (count_sql sql) of
              Inl e \<Rightarrow> (Inl e, w)
            | Inr total_rows \<Rightarrow>
                (case set_entry w cid (\<lambda>entry. entry\<lparr>total := total_rows\<rparr>) of
                   Inl e \<Rightarrow> (Inl e, w)
                 | Inr w1 \<Rightarrow>
                     (case set_entry w1 cid (\<lambda>entry. entry\<lparr>status := lit ''exporting''\<rparr>) of
                        Inl e \<Rightarrow> (Inl e, w1)
                      | Inr w2 \<Rightarrow> (Inr (), w2)))) of
        (Inr u, w2) \<Rightarrow> (Inr (), w2)
      | (Inl e, w1) \<Rightarrow>
          (case set_entry w1 cid (\<lambda>entry. entry\<lparr>status := lit ''exporting''\<rparr>) of
             Inl e1 \<Rightarrow> (Inl e1, w1)
           | Inr w2 \<Rightarrow> (Inr (), w2)))"

definition fetchmany :: "cursor \<Rightarrow> nat \<Rightarrow> exn + (row list \<times> cursor)" where
  "fetchmany result n =
     (if pending result = [] then
        (case fetch_error result of Some e \<Rightarrow> Inl e | None \<Rightarrow> Inr ([], result))
      else Inr (take n (pending result), result\<lparr>pending := drop n (pending result)\<rparr>))"

definition writerow :: "env \<Rightarrow> pystr \<Rightarrow> row \<Rightarrow> world \<Rightarrow> (exn + unit) \<times> world" where
  "writerow E filepath r w =
     (case write_error E r of
        Some e \<Rightarrow> (Inl e, w)
      | None \<Rightarrow>
          (Inr (),
           w\<lparr>files := (files w)(filepath \<mapsto>
                (case files w filepath of None \<Rightarrow> [] | Some written \<Rightarrow> written) @ [r])\<rparr>))"

fun write_rows :: "env \<Rightarrow> pystr \<Rightarrow> row list \<Rightarrow> nat \<Rightarrow> world \<Rightarrow> (exn + nat) \<times> world" where
  \<comment> \<open>\<open>for row in rows: writer.writerow(row); row_count += 1\<close>\<close>
  "write_rows E filepath [] rc w = (Inr rc, w)"
| "write_rows E filepath (r # rows) rc w =
     (case writerow E filepath r w of
        (Inl e, w1) \<Rightarrow> (Inl e, w1)
      | (Inr u, w1) \<Rightarrow> write_rows E filepath rows (rc + 1) w1)"

function stream_loop ::
  "env \<Rightarrow> pystr \<Rightarrow> pystr \<Rightarrow> cursor \<Rightarrow> bool \<Rightarrow> nat \<Rightarrow> world \<Rightarrow> (exn + nat) \<times> world" where
  "stream_loop E cid filepath result have_writer rc w =
     (case fetchmany result STREAMING_BATCH_SIZE of
        Inl e \<Rightarrow> (Inl e, w)
      | Inr (rows, result1) \<Rightarrow>
          if rows = [] then (Inr rc, w)
          else
            (case (if \<not> have_writer then writerow E filepath (keys result) w else (Inr (), w)) of
               (Inl e, w1) \<Rightarrow> (Inl e, w1)
             | (Inr u, w1) \<Rightarrow>
                 (case write_rows E filepath rows rc w1 of
                    (Inl e, w2) \<Rightarrow> (Inl e, w2)
                  | (Inr rc1, w2) \<Rightarrow>
                      (case set_entry w2 cid (\<lambda>entry. entry\<lparr>processed := int rc1\<rparr>) of
                         Inl e \<Rightarrow> (Inl e, w2)
                       | Inr w3 \<Rightarrow> stream_loop E cid filepath result1 True rc1 w3))))"
  by pat_completeness auto
termination
  by (relation "measure (\<lambda>(E, cid, filepath, result, have_writer, rc, w). length (pending result))")
    (auto simp: fetchmany_def STREAMING_BATCH_SIZE_def split: if_splits option.splits)

declare stream_loop.simps [simp del]

definition export_rows ::
  "env \<Rightarrow> pystr \<Rightarrow> pystr \<Rightarrow> pystr \<Rightarrow> world \<Rightarrow> (exn + SaveToWorkspaceResult) \<times> world" where
  \<comment> \<open>\<open>_stream_to_file\<close> from the execution of the query to the end\<close>
  "export_rows E cid filepath sql w =
     (case execute E sql of
        Inl e \<Rightarrow> (Inl e, w)
      | Inr result \<Rightarrow>
          (case open_error E filepath of
             Some e \<Rightarrow> (Inl e, w)
           | None \<Rightarrow>
               (case stream_loop E cid filepath result False 0
                       (w\<lparr>files := (files w)(filepath \<mapsto> [])\<rparr>) of
                  (Inl e, w1) \<Rightarrow> (Inl e, w1)
                | (Inr n, w1) \<Rightarrow>
                    (case set_entry w1 cid (\<lambda>entry. entry\<lparr>status := lit ''completed''\<rparr>) of
                       Inl e \<Rightarrow> (Inl e, w1)
                     | Inr w2 \<Rightarrow>
                         (Inr \<lparr>result_status = lit ''success'', path = filepath,
                               row_count = int n\<rparr>, w2)))))"

definition stream_to_file ::
  "env \<Rightarrow> query \<Rightarrow> pystr \<Rightarrow> pystr \<Rightarrow> world \<Rightarrow> (exn + SaveToWorkspaceResult) \<times> world" where
  "stream_to_file E q cid filepath w =
     (case get_sql_and_limit E q of
        Inl e \<Rightarrow> (Inl e, w)
      | Inr (sql0, limit) \<Rightarrow>
          (case parse_script E sql0 (engine q) of
             Inl e \<Rightarrow> (Inl e, w)
           | Inr statements \<Rightarrow>
               let sql = streaming_sql q (tables E) sql0 limit statements;
                   w1 = start_progress w cid
               in (case connect_error E of
                     Some e \<Rightarrow> (Inl e, w1)
                   | None \<Rightarrow>
                       (case count_rows E cid sql w1 of
                          (Inl e, w2) \<Rightarrow> (Inl e, w2)
                        | (Inr u, w2) \<Rightarrow> export_rows E cid filepath sql w2))))"

section \<open>ExportCoordinator: run\<close>

definition run :: "env \<Rightarrow> command \<Rightarrow> world \<Rightarrow> (exn + SaveToWorkspaceResult) \<times> world" where
  "run E cmd w =
     (case validate E cmd of
        Inl e \<Rightarrow> (Inl e, w)
      | Inr q \<Rightarrow>
          (case get_workspace_path E cmd w of
             (Inl e, w1) \<Rightarrow> (Inl e, w1)
           | (Inr filepath, w1) \<Rightarrow>
               (case (if streaming cmd then stream_to_file E q (client_id cmd) filepath w1
                      else save_from_cache E q filepath w1) of
                  (Inr r, w2) \<Rightarrow> (Inr r, w2)
                | (Inl ex, w2) \<Rightarrow> (Inl (SupersetErrorException GENERIC_BACKEND_ERROR 500), w2))))"

section \<open>The progress entries an export writes\<close>

text \<open>
  The values of \<open>processed\<close> that the loop stores: the cumulative row count after each
  batch of at most \<open>STREAMING_BATCH_SIZE\<close> rows, for \<open>n\<close> rows still to come after \<open>rc\<close>.
\<close>

function batch_marks :: "nat \<Rightarrow> nat \<Rightarrow> nat list" where
  "batch_marks rc n =
     (if n = 0 then []
      else (rc + min STREAMING_BATCH_SIZE n)
           # batch_marks (rc + min STREAMING_BATCH_SIZE n) (n - min STREAMING_BATCH_SIZE n))"
  by pat_completeness auto
termination
  by (relation "measure (\<lambda>(rc, n). n)") (auto simp: STREAMING_BATCH_SIZE_def)

declare batch_marks.simps [simp del]

text \<open>
  \<open>tracks S cid T es w\<close>: since the store was \<open>S\<close> and the trace \<open>T\<close>, the entries \<open>es\<close> have
  been assigned to the client id, in this order, and nothing else was assigned.
\<close>

definition tracks ::
  "(pystr \<rightharpoonup> progress_entry) \<Rightarrow> pystr \<Rightarrow> (pystr \<rightharpoonup> progress_entry) list \<Rightarrow> progress_entry list \<Rightarrow> world \<Rightarrow> bool" where
  "tracks S cid T es w =
     (es \<noteq> [] \<and> progress_store w = S(cid \<mapsto> last es) \<and> trace w = T @ map (\<lambda>en. S(cid \<mapsto> en)) es)"

text \<open>
  The entries of one export, in the order of their assignment: the one that starts it, those
  of the count (two when it succeeds, one when it fails), one for each batch, and the
  final one.
\<close>

definition start_entry :: progress_entry where
  "start_entry = \<lparr>processed = 0, total = - 1, status = lit ''counting''\<rparr>"

definition count_entries :: "exn + int \<Rightarrow> progress_entry list" where
  "count_entries counted =
     (case counted of
        Inr n \<Rightarrow> [start_entry\<lparr>total := n\<rparr>, start_entry\<lparr>total := n, status := lit ''exporting''\<rparr>]
      | Inl e \<Rightarrow> [start_entry\<lparr>status := lit ''exporting''\<rparr>])"

definition loop_entries :: "progress_entry \<Rightarrow> nat \<Rightarrow> progress_entry list" where
  "loop_entries en n = map (\<lambda>v. en\<lparr>processed := int v\<rparr>) (batch_marks 0 n)"

definition yielded :: "env \<Rightarrow> pystr \<Rightarrow> nat" where
  "yielded E sql = (case execute E sql of Inr cur \<Rightarrow> length (pending cur) | Inl e \<Rightarrow> 0)"

definition export_entries :: "env \<Rightarrow> pystr \<Rightarrow> progress_entry list" where
  "export_entries E sql =
     (let counted = count_entries (execute_scalar E (count_sql sql))
      in [start_entry] @ counted @ loop_entries (last counted) (yielded E sql))"

definition final_entry :: "env \<Rightarrow> pystr \<Rightarrow> progress_entry" where
  "final_entry E sql = (last (export_entries E sql))\<lparr>status := lit ''completed''\<rparr>"

section \<open>The destination and example inputs\<close>

definition relative_destination :: "ucd \<Rightarrow> pystr \<Rightarrow> pystr \<Rightarrow> pystr" where
  \<comment> \<open>the destination below the workspace root, for a request's subfolder and file name\<close>
  "relative_destination U sub fname =
     (if py_strip_ws (sanitize_subfolder U sub) = [] then sanitize_filename U fname
      else sanitize_subfolder U sub @ lit ''/'' @ sanitize_filename U fname)"

text \<open>
  An installation to evaluate the command on: one stored query, the text
  \<open>SELECT * FROM t LIMIT 101\<close> run with the limiting factor QUERY (an interactive limit of
  100); a parser that finds the limit in a text that ends in one; a table of 25,000 rows, of
  which a query that still carries a LIMIT returns the first hundred; no failing
  collaborator. \<open>query1\<close> is the same query with a selection of the user that ends in a
  LIMIT; in \<open>env_count_fails\<close> the count query raises, in \<open>env_execute_fails\<close> the query
  itself does.
\<close>

definition query0 :: query where
  "query0 = \<lparr>select_sql = None, executed_sql = lit ''SELECT * FROM t LIMIT 101'',
             limiting_factor = QUERY, engine = lit ''sqlite'', results_key = None\<rparr>"

definition rows0 :: "row list" where
  "rows0 = replicate 25000 [lit ''1'', lit ''x'']"

definition env0 :: env where
  "env0 = \<lparr>tables = latin1,
           work_dir = lit ''/home/u/work'',
           queries = [lit ''abc'' \<mapsto> query0],
           access_denied = (\<lambda>q. False),
           parse_script = (\<lambda>sql eng. Inr [Statement
              (if sql = lit ''SELECT * FROM t LIMIT 101'' then Some 101
               else if sql = lit ''SELECT * FROM t LIMIT 100'' then Some 100 else None)]),
           connect_error = None,
           execute_scalar = (\<lambda>sql. Inr 25000),
           execute = (\<lambda>sql. Inr \<lparr>keys = [lit ''id'', lit ''name''],
              pending = (if sql = lit ''SELECT * FROM t'' then rows0 else take 100 rows0),
              fetch_error = None\<rparr>),
           makedirs_error = (\<lambda>d. None),
           open_error = (\<lambda>f. None),
           write_error = (\<lambda>r. None),
           results_backend = None,
           deserialize = (\<lambda>b. Inl (Raised [])),
           get_df = (\<lambda>sql. Inl (Raised []))\<rparr>"

definition query1 :: query where
  "query1 = query0\<lparr>select_sql := Some (lit ''SELECT * FROM t LIMIT 100'')\<rparr>"

definition env_count_fails :: env where
  "env_count_fails = env0\<lparr>execute_scalar := (\<lambda>sql. Inl (Raised (lit ''timeout'')))\<rparr>"

definition env_execute_fails :: env where
  "env_execute_fails = env0\<lparr>execute := (\<lambda>sql. Inl (Raised (lit ''connection lost'')))\<rparr>"

definition command0 :: command where
  "command0 = init_command latin1 (lit ''abc'') (lit ''out'') (lit ''../../etc'') True"

definition cursor_all :: cursor where
  "cursor_all = \<lparr>keys = [lit ''id'', lit ''name''], pending = rows0, fetch_error = None\<rparr>"

definition cursor_limited :: cursor where
  "cursor_limited = \<lparr>keys = [lit ''id'', lit ''name''], pending = take 100 rows0, fetch_error = None\<rparr>"

definition world0 :: world where
  "world0 = \<lparr>progress_store = Map.empty, trace = [], dirs = {}, files = Map.empty\<rparr>"

section \<open>Facts about the string methods and the sanitizers\<close>

lemma lit_csv: "lit ''.csv'' = [46, 99, 115, 118]" by (simp add: lit_def)
lemma lit_export: "lit ''export'' = [101, 120, 112, 111, 114, 116]" by (simp add: lit_def)
lemma lit_underscore: "lit ''_'' = [95]" by (simp add: lit_def)
lemma lit_dot: "lit ''.'' = [46]" by (simp add: lit_def)
lemma lit_slash: "lit ''/'' = [47]" by (simp add: lit_def)
lemma lit_dotdot: "lit ''..'' = [46, 46]" by (simp add: lit_def)

lemma rfind_from_absent: "c \<notin> set xs \<Longrightarrow> rfind_from c i xs = - 1"
  by (induction xs arbitrary: i) (auto simp: Let_def)

lemma takeWhile_neq_all: "c \<notin> set xs \<Longrightarrow> takeWhile (\<lambda>x. x \<noteq> c) xs = xs"
  by (induction xs) auto

lemma takeWhile_neq_stop: "c \<notin> set xs \<Longrightarrow> takeWhile (\<lambda>x. x \<noteq> c) (xs @ c # ys) = xs"
  by (induction xs) auto

lemma length_takeWhile_less: "c \<in> set xs \<Longrightarrow> length (takeWhile (\<lambda>x. x \<noteq> c) xs) < length xs"
  by (induction xs) auto

lemma rfind_from_present:
  "c \<in> set xs \<Longrightarrow> 0 \<le> i \<Longrightarrow>
   rfind_from c i xs = i + int (length xs) - 1 - int (length (takeWhile (\<lambda>x. x \<noteq> c) (rev xs)))"
proof (induction xs arbitrary: i)
  case Nil
  then show ?case by simp
next
  case (Cons x xs)
  show ?case
  proof (cases "c \<in> set xs")
    case True
    have lt: "length (takeWhile (\<lambda>x. x \<noteq> c) (rev xs)) < length xs"
      using length_takeWhile_less [of c "rev xs"] True by simp
    have r: "rfind_from c (i + 1) xs
        = i + 1 + int (length xs) - 1 - int (length (takeWhile (\<lambda>x. x \<noteq> c) (rev xs)))"
      using Cons.IH [OF True, of "i + 1"] Cons.prems by simp
    have ne: "rfind_from c (i + 1) xs \<noteq> - 1" using r lt Cons.prems by linarith
    have tw: "takeWhile (\<lambda>x. x \<noteq> c) (rev xs @ [x]) = takeWhile (\<lambda>x. x \<noteq> c) (rev xs)"
      using True by (simp add: takeWhile_append1)
    show ?thesis using r ne tw by (simp add: Let_def)
  next
    case False
    then have xc: "x = c" using Cons.prems by simp
    have "c \<notin> set (rev xs)" using False by simp
    then have tw: "takeWhile (\<lambda>x. x \<noteq> c) (rev xs @ [x]) = rev xs"
      unfolding xc by (rule takeWhile_neq_stop)
    show ?thesis using False xc tw by (simp add: Let_def rfind_from_absent)
  qed
qed

lemma basename_alt: "basename p = rev (takeWhile (\<lambda>c. c \<noteq> 47) (rev p))"
proof (cases "47 \<in> set p")
  case False
  then have "47 \<notin> set (rev p)" by simp
  then have tw: "takeWhile (\<lambda>c. c \<noteq> 47) (rev p) = rev p"
    by (rule takeWhile_neq_all)
  have "basename p = p" using False by (simp add: basename_def py_rfind_def rfind_from_absent)
  then show ?thesis unfolding tw by simp
next
  case True
  let ?t = "takeWhile (\<lambda>c. c \<noteq> 47) (rev p)"
  have lt: "length ?t < length p" using length_takeWhile_less [of 47 "rev p"] True by simp
  have r: "py_rfind p 47 + 1 = int (length p - length ?t)"
    using rfind_from_present [OF True, of 0] lt by (simp add: py_rfind_def)
  have "?t = take (length ?t) (rev p)" by (rule takeWhile_eq_take)
  then have "rev ?t = drop (length p - length ?t) p"
    by (metis rev_take rev_rev_ident length_rev)
  then show ?thesis using r by (simp add: basename_def)
qed


lemma ascii_lower_csv:
  "(ascii_lower a = 46) = (a = 46)" "(ascii_lower a = 99) = (a = 99 \<or> a = 67)"
  "(ascii_lower a = 115) = (a = 115 \<or> a = 83)" "(ascii_lower a = 118) = (a = 118 \<or> a = 86)"
  by (auto simp: ascii_lower_def)

lemma endswith_csv_ci: "py_endswith (py_lower s) (lit ''.csv'') = csv_suffix_ci s"
proof (cases "4 \<le> length s")
  case False
  have "length (lit ''.csv'') = 4" by (simp add: lit_def)
  then show ?thesis using False by (simp add: py_endswith_def py_lower_def csv_suffix_ci_def)
next
  case True
  define t where "t = drop (length s - 4) s"
  have "length t = 4" using True by (simp add: t_def)
  then obtain a b c d where t: "t = [a, b, c, d]"
    by (auto simp: length_Suc_conv numeral_eq_Suc)
  have len: "length (lit ''.csv'') = 4" by (simp add: lit_def)
  have "py_endswith (py_lower s) (lit ''.csv'') = (map ascii_lower t = lit ''.csv'')"
    using True by (simp add: py_endswith_def py_lower_def len t_def drop_map)
  also have "\<dots> = csv_suffix_ci s"
    using True unfolding csv_suffix_ci_def t_def [symmetric] t lit_csv
    by (simp add: ascii_lower_csv Let_def)
  finally show ?thesis .
qed

lemma re_sub_class_single:
  "re_sub_class cls [r] s = map (\<lambda>c. if cls c then r else c) s"
  by (induction s) (auto simp: re_sub_class_def)

lemma sanitize_filename_alt:
  "sanitize_filename U f = sanitizeFilename_spec (filename_class U) f"
proof -
  have cls: "(\<lambda>c. if \<not> (re_word U c \<or> c = 45 \<or> c = 46) then 95 else c)
      = (\<lambda>c. if filename_class U c then c else 95)"
    by (auto simp: filename_class_def)
  have ls: "\<And>xs. py_lstrip xs (lit ''.'') = dropWhile (\<lambda>c. c = 46) xs"
    by (simp add: py_lstrip_def lit_dot)
  show ?thesis
    unfolding sanitize_filename_def sanitizeFilename_spec_def Let_def
      basename_alt lit_underscore re_sub_class_single cls ls endswith_csv_ci
    by simp
qed

lemma filename_class_ascii:
  "filename_class U c = (if c < 128 then filename_whitelist c else isalnum_hi U c)"
  by (auto simp: filename_class_def filename_whitelist_def re_word_def)


lemma filename_class_underscore: "filename_class U 95"
  by (simp add: filename_class_def re_word_def)

lemma filename_class_slash: "\<not> filename_class U 47"
  by (simp add: filename_class_def re_word_def ascii_alpha_def ascii_digit_def)

lemma filename_class_export: "list_all (filename_class U) (lit ''export'')"
  by (simp add: lit_export filename_class_def re_word_def ascii_alpha_def)

lemma filename_class_csv: "list_all (filename_class U) (lit ''.csv'')"
  by (simp add: lit_csv filename_class_def re_word_def ascii_alpha_def)

lemma csv_suffix_ci_append: "csv_suffix_ci (xs @ lit ''.csv'')"
  by (simp add: csv_suffix_ci_def lit_csv)

lemma csv_suffix_ci_longer:
  assumes "csv_suffix_ci xs" and "hd xs \<noteq> 46"
  shows "4 < length xs"
proof (rule ccontr)
  assume "\<not> 4 < length xs"
  then have "length xs = 4" using assms(1) by (simp add: csv_suffix_ci_def)
  then have "hd xs = 46" using assms(1) by (cases xs) (auto simp: csv_suffix_ci_def)
  then show False using assms(2) by simp
qed

lemma hd_dropWhile_dot: "dropWhile (\<lambda>c. c = 46) xs \<noteq> [] \<Longrightarrow> hd (dropWhile (\<lambda>c. c = (46::nat)) xs) \<noteq> 46"
  using hd_dropWhile [of "\<lambda>c. c = (46::nat)" xs] by simp

lemma spec_result_props:
  fixes U f
  defines "r \<equiv> sanitizeFilename_spec (filename_class U) f"
  shows "list_all (filename_class U) r" and "r \<noteq> []" and "hd r \<noteq> 46" and "csv_suffix_ci r"
proof -
  define replaced where
    "replaced = map (\<lambda>c. if filename_class U c then c else 95) (rev (takeWhile (\<lambda>c. c \<noteq> 47) (rev f)))"
  define undotted where "undotted = dropWhile (\<lambda>c. c = 46) replaced"
  define nonempty where "nonempty = (if undotted = [] then lit ''export'' else undotted)"
  have r: "r = (if csv_suffix_ci nonempty then nonempty else nonempty @ lit ''.csv'')"
    by (simp add: r_def sanitizeFilename_spec_def Let_def nonempty_def undotted_def replaced_def)
  have "list_all (filename_class U) replaced"
    by (auto simp: replaced_def list_all_iff filename_class_underscore)
  then have "list_all (filename_class U) undotted"
    unfolding undotted_def list_all_iff using set_dropWhileD by fast
  then have a: "list_all (filename_class U) nonempty"
    by (simp add: nonempty_def filename_class_export)
  have b: "nonempty \<noteq> []" by (simp add: nonempty_def lit_export)
  have c: "hd nonempty \<noteq> 46"
    using hd_dropWhile_dot [of replaced] by (simp add: nonempty_def undotted_def lit_export)
  show "list_all (filename_class U) r" using a by (simp add: r filename_class_csv)
  show "r \<noteq> []" using b by (simp add: r)
  show "hd r \<noteq> 46" using b c by (simp add: r)
  show "csv_suffix_ci r" by (simp add: r csv_suffix_ci_append)
qed

lemma spec_fixed:
  assumes "list_all (filename_class U) r" and "r \<noteq> []" and "hd r \<noteq> 46" and "csv_suffix_ci r"
  shows "sanitizeFilename_spec (filename_class U) r = r"
proof -
  have "47 \<notin> set (rev r)" using assms(1) filename_class_slash [of U] by (auto simp: list_all_iff)
  then have "takeWhile (\<lambda>c. c \<noteq> 47) (rev r) = rev r"
    by (rule takeWhile_neq_all)
  then have s1: "rev (takeWhile (\<lambda>c. c \<noteq> 47) (rev r)) = r"
    by (simp only: rev_rev_ident)
  have s2: "map (\<lambda>c. if filename_class U c then c else 95) r = r"
    using assms(1) by (simp add: list_all_iff map_idI)
  have s3: "dropWhile (\<lambda>c. c = 46) r = r" using assms(2,3) by (cases r) auto
  show ?thesis
    unfolding sanitizeFilename_spec_def Let_def s1 s2 s3 using assms(2,4) by simp
qed

lemma sanitize_filename_idem: "sanitize_filename U (sanitize_filename U f) = sanitize_filename U f"
  unfolding sanitize_filename_alt by (intro spec_fixed spec_result_props)

lemma sanitize_filename_shape: "matches_csv_pattern_ci U (sanitize_filename U f)"
proof -
  let ?r = "sanitizeFilename_spec (filename_class U) f"
  have "4 < length ?r" by (intro csv_suffix_ci_longer spec_result_props)
  moreover have "list_all (filename_class U) (take (length ?r - 4) ?r)"
    using spec_result_props(1) [of U f] unfolding list_all_iff using in_set_takeD by fast
  ultimately show ?thesis
    unfolding sanitize_filename_alt matches_csv_pattern_ci_def
    by (simp add: spec_result_props)
qed



lemma lit_sql_exports: "lit ''sql_exports'' = [115, 113, 108, 95, 101, 120, 112, 111, 114, 116, 115]"
  by (simp add: lit_def)

lemma py_replace_Nil: "old \<noteq> [] \<Longrightarrow> py_replace [] old new = []"
  by (subst py_replace.simps) simp

lemma py_replace_hit:
  "old \<noteq> [] \<Longrightarrow> take (length old) (x # xs) = old \<Longrightarrow>
   py_replace (x # xs) old new = new @ py_replace (drop (length old) (x # xs)) old new"
  by (subst py_replace.simps) simp

lemma py_replace_miss:
  "old \<noteq> [] \<Longrightarrow> take (length old) (x # xs) \<noteq> old \<Longrightarrow>
   py_replace (x # xs) old new = x # py_replace xs old new"
  by (subst py_replace.simps) simp

lemma py_replace_dotdot: "py_replace s (lit ''..'') [] = remove_dotdot s"
proof (induction s rule: remove_dotdot.induct)
  case (1 a b xs)
  show ?case
  proof (cases "a = 46 \<and> b = 46")
    case True
    then show ?thesis using 1 by (simp add: lit_dotdot py_replace_hit)
  next
    case False
    then have "take (length [46, 46::nat]) (a # b # xs) \<noteq> [46, 46]" by auto
    then have "py_replace (a # b # xs) [46, 46] [] = a # py_replace (b # xs) [46, 46] []"
      by (intro py_replace_miss) simp_all
    then show ?thesis using 1(2) False by (auto simp: lit_dotdot)
  qed
qed (simp_all add: lit_dotdot py_replace_Nil py_replace_miss)

lemma py_strip_trim: "py_strip s [c] = trim c s"
  by (simp add: py_strip_def py_rstrip_def py_lstrip_def trim_def)

lemma fold_collect:
  "fold (\<lambda>part acc. let part = g part in if part \<noteq> [] then acc @ [part] else acc) parts acc
   = acc @ filter (\<lambda>seg. seg \<noteq> []) (map g parts)"
  by (induction parts arbitrary: acc) (auto simp: Let_def)

lemma sanitize_part_alt:
  "sanitize_part U part = trim 95 (whitelist_segment (subfolder_class U) part)"
proof -
  have "(\<lambda>c. if \<not> (re_word U c \<or> c = 45) then 95 else c)
      = (\<lambda>c. if subfolder_class U c then c else 95)"
    by (auto simp: subfolder_class_def)
  then show ?thesis
    by (simp add: sanitize_part_def lit_underscore re_sub_class_single py_strip_trim
        whitelist_segment_def)
qed

lemma sanitize_subfolder_alt:
  "sanitize_subfolder U s
   = sanitizeSubfolder_spec (\<lambda>seg. trim 95 (whitelist_segment (subfolder_class U) seg)) s"
  unfolding sanitize_subfolder_def sanitizeSubfolder_spec_def fold_collect py_replace_dotdot
  unfolding Let_def lit_slash py_strip_trim sanitize_part_alt
  by simp

lemma subfolder_class_ascii:
  "subfolder_class U c = (if c < 128 then filename_whitelist c \<and> c \<noteq> 46 else isalnum_hi U c)"
  by (auto simp: subfolder_class_def filename_whitelist_def re_word_def ascii_alpha_def ascii_digit_def)

lemma set_trim: "set (trim c s) \<subseteq> set s"
  by (auto simp: trim_def dest!: set_dropWhileD)

lemma subfolder_class_dot: "\<not> subfolder_class U 46"
  by (simp add: subfolder_class_def re_word_def ascii_alpha_def ascii_digit_def)

lemma no_dot_segment: "46 \<notin> set (trim 95 (whitelist_segment (subfolder_class U) seg))"
proof -
  have "46 \<notin> set (whitelist_segment (subfolder_class U) seg)"
    by (auto simp: whitelist_segment_def subfolder_class_dot)
  then show ?thesis using set_trim [of 95] by blast
qed

lemma set_py_join: "set (py_join sep ps) \<subseteq> set sep \<union> \<Union> (set ` set ps)"
  by (induction sep ps rule: py_join.induct) auto

lemma sanitize_subfolder_no_dot: "46 \<notin> set (sanitize_subfolder U s)"
proof -
  let ?clean = "\<lambda>seg. trim 95 (whitelist_segment (subfolder_class U) seg)"
  let ?kept = "filter (\<lambda>seg. seg \<noteq> []) (map ?clean (py_split (trim 47 (remove_dotdot s)) 47))"
  have "\<forall>p \<in> set ?kept. 46 \<notin> set p" using no_dot_segment by auto
  then have "46 \<notin> set (py_join (lit ''/'') ?kept)"
    using set_py_join [of "lit ''/''" ?kept] by (auto simp: lit_slash)
  then show ?thesis
    unfolding sanitize_subfolder_alt sanitizeSubfolder_spec_def Let_def
    by (simp add: lit_sql_exports)
qed

lemma set_py_split: "p \<in> set (py_split s sep) \<Longrightarrow> set p \<subseteq> set s"
proof (induction s arbitrary: p)
  case Nil
  then show ?case by simp
next
  case (Cons x xs)
  show ?case
  proof (cases "x = sep")
    case True
    then show ?thesis using Cons by auto
  next
    case False
    show ?thesis
    proof (cases "py_split xs sep")
      case Nil
      then show ?thesis using Cons.prems False by simp
    next
      case (Cons q qs)
      have "set q \<subseteq> set xs" using Cons.IH [of q] Cons by simp
      moreover have "\<And>r. r \<in> set qs \<Longrightarrow> set r \<subseteq> set xs" using Cons.IH Cons by simp
      ultimately show ?thesis using Cons.prems False Cons by auto
    qed
  qed
qed



lemma py_split_ne: "py_split s sep \<noteq> []"
  by (induction s) (auto split: list.splits)

lemma py_split_append:
  "py_split (a @ sep # b) sep = py_split a sep @ py_split b sep"
proof (induction a)
  case Nil
  show ?case by simp
next
  case (Cons x xs)
  show ?case
  proof (cases "x = sep")
    case True
    then show ?thesis using Cons by simp
  next
    case False
    then show ?thesis using Cons py_split_ne [of xs sep] py_split_ne [of "xs @ sep # b" sep]
      by (cases "py_split xs sep") auto
  qed
qed

lemma py_split_none: "sep \<notin> set s \<Longrightarrow> py_split s sep = [s]"
  by (induction s) auto

lemma sanitize_filename_facts:
  "47 \<notin> set (sanitize_filename U f)" "sanitize_filename U f \<noteq> []" "hd (sanitize_filename U f) \<noteq> 46"
proof -
  have "list_all (filename_class U) (sanitize_filename U f)"
    unfolding sanitize_filename_alt by (rule spec_result_props)
  then show "47 \<notin> set (sanitize_filename U f)"
    using filename_class_slash [of U] by (auto simp: list_all_iff)
  show "sanitize_filename U f \<noteq> []" unfolding sanitize_filename_alt by (rule spec_result_props)
  show "hd (sanitize_filename U f) \<noteq> 46" unfolding sanitize_filename_alt by (rule spec_result_props)
qed

lemma hd_py_join: "ps \<noteq> [] \<Longrightarrow> hd ps \<noteq> [] \<Longrightarrow> hd (py_join sep ps) = hd (hd ps)"
  by (induction sep ps rule: py_join.induct) auto

lemma py_join_ne_last: "ps \<noteq> [] \<Longrightarrow> last ps \<noteq> [] \<Longrightarrow> py_join sep ps \<noteq> []"
  by (induction sep ps rule: py_join.induct) auto

lemma last_py_join: "ps \<noteq> [] \<Longrightarrow> last ps \<noteq> [] \<Longrightarrow> last (py_join sep ps) = last (last ps)"
proof (induction sep ps rule: py_join.induct)
  case (3 sep p q ps)
  have "py_join sep (q # ps) \<noteq> []" using 3(2,3) py_join_ne_last [of "q # ps" sep] by simp
  then show ?case using 3 by simp
qed auto

lemma py_join_ne: "ps \<noteq> [] \<Longrightarrow> hd ps \<noteq> [] \<Longrightarrow> py_join sep ps \<noteq> []"
  by (induction sep ps rule: py_join.induct) auto

lemma subfolder_class_slash: "\<not> subfolder_class U 47"
  by (simp add: subfolder_class_def re_word_def ascii_alpha_def ascii_digit_def)

lemma no_slash_segment: "47 \<notin> set (trim 95 (whitelist_segment (subfolder_class U) seg))"
proof -
  have "47 \<notin> set (whitelist_segment (subfolder_class U) seg)"
    by (auto simp: whitelist_segment_def subfolder_class_slash)
  then show ?thesis using set_trim [of 95] by blast
qed

lemma sanitize_subfolder_facts:
  "sanitize_subfolder U s \<noteq> []" "hd (sanitize_subfolder U s) \<noteq> 47" "last (sanitize_subfolder U s) \<noteq> 47"
proof -
  let ?clean = "\<lambda>seg. trim 95 (whitelist_segment (subfolder_class U) seg)"
  let ?kept = "filter (\<lambda>seg. seg \<noteq> []) (map ?clean (py_split (trim 47 (remove_dotdot s)) 47))"
  have r: "sanitize_subfolder U s = (if ?kept = [] then lit ''sql_exports'' else py_join (lit ''/'') ?kept)"
    unfolding sanitize_subfolder_alt sanitizeSubfolder_spec_def Let_def by simp
  have all: "\<And>p. p \<in> set ?kept \<Longrightarrow> p \<noteq> [] \<and> 47 \<notin> set p" using no_slash_segment by auto
  show "sanitize_subfolder U s \<noteq> []"
  proof (cases "?kept = []")
    case True then show ?thesis by (simp add: r lit_sql_exports)
  next
    case False
    then have "hd ?kept \<noteq> []" using all [of "hd ?kept"] hd_in_set [OF False] by blast
    then show ?thesis using False py_join_ne [of ?kept] by (simp add: r)
  qed
  show "hd (sanitize_subfolder U s) \<noteq> 47"
  proof (cases "?kept = []")
    case True then show ?thesis by (simp add: r lit_sql_exports)
  next
    case False
    then have h: "hd ?kept \<noteq> [] \<and> 47 \<notin> set (hd ?kept)" using all [of "hd ?kept"] hd_in_set [OF False] by blast
    then have "hd (hd ?kept) \<noteq> 47" using hd_in_set [of "hd ?kept"] by metis
    then show ?thesis using False h hd_py_join [of ?kept "lit ''/''"] by (simp add: r)
  qed
  show "last (sanitize_subfolder U s) \<noteq> 47"
  proof (cases "?kept = []")
    case True then show ?thesis by (simp add: r lit_sql_exports)
  next
    case False
    then have h: "last ?kept \<noteq> [] \<and> 47 \<notin> set (last ?kept)" using all [of "last ?kept"] last_in_set [OF False] by blast
    then have "last (last ?kept) \<noteq> 47" using last_in_set [of "last ?kept"] by metis
    then show ?thesis using False h last_py_join [of ?kept "lit ''/''"] by (simp add: r)
  qed
qed

lemma no_dotdot_subfolder: "lit ''..'' \<notin> set (py_split (sanitize_subfolder U s) 47)"
proof
  assume "lit ''..'' \<in> set (py_split (sanitize_subfolder U s) 47)"
  then have "set (lit ''..'') \<subseteq> set (sanitize_subfolder U s)" by (rule set_py_split)
  then show False using sanitize_subfolder_no_dot [of U s] by (simp add: lit_dotdot)
qed

lemma no_dotdot_filename: "lit ''..'' \<notin> set (py_split (sanitize_filename U f) 47)"
proof
  assume "lit ''..'' \<in> set (py_split (sanitize_filename U f) 47)"
  then have "sanitize_filename U f = [46, 46]"
    using sanitize_filename_facts(1) [of U f] by (simp add: py_split_none lit_dotdot)
  then have "hd (sanitize_filename U f) = 46" by simp
  then show False using sanitize_filename_facts(3) [of U f] by simp
qed

lemma path_join_assoc:
  assumes "b \<noteq> []" "hd b \<noteq> 47" "last b \<noteq> 47" "c \<noteq> []" "hd c \<noteq> 47"
  shows "path_join (path_join a b) c = path_join a (b @ lit ''/'' @ c)"
  using assms by (auto simp: path_join_def lit_slash)

lemma relative_destination_facts:
  "lit ''..'' \<notin> set (py_split (relative_destination U sub fname) 47)"
  "relative_destination U sub fname \<noteq> []"
  "hd (relative_destination U sub fname) \<noteq> 47"
proof -
  note sf = sanitize_subfolder_facts [of U sub] and ff = sanitize_filename_facts [of U fname]
  have hdf: "hd (sanitize_filename U fname) \<noteq> 47" using ff hd_in_set by metis
  show "lit ''..'' \<notin> set (py_split (relative_destination U sub fname) 47)"
    using no_dotdot_subfolder [of U sub] no_dotdot_filename [of U fname]
    by (simp add: relative_destination_def lit_slash py_split_append)
  show "relative_destination U sub fname \<noteq> []"
    using sf ff by (simp add: relative_destination_def)
  show "hd (relative_destination U sub fname) \<noteq> 47"
    using sf ff hdf by (simp add: relative_destination_def)
qed

lemma workspace_path_shape:
  assumes "get_workspace_path E (init_command U cid fname sub strm) w = (Inr p, w1)"
  shows "p = path_join (work_dir E) (relative_destination U sub fname)"
proof -
  note sf = sanitize_subfolder_facts [of U sub] and ff = sanitize_filename_facts [of U fname]
  have hdf: "hd (sanitize_filename U fname) \<noteq> 47" using ff hd_in_set by metis
  show ?thesis
    using assms sf ff hdf
      path_join_assoc [of "sanitize_subfolder U sub" "sanitize_filename U fname" "work_dir E"]
    by (auto simp: get_workspace_path_def init_command_def relative_destination_def Let_def
        split: option.splits if_splits)
qed

lemma eval_subfolder: "sanitize_subfolder latin1 (lit ''../../etc'') = lit ''etc''"
  by code_simp

lemma eval_filename: "sanitize_filename latin1 (lit ''out'') = lit ''out.csv''"
  by code_simp

section \<open>Facts about the streaming exporter\<close>

lemma tracks_start: "tracks (progress_store w) cid (trace w) [start_entry] (start_progress w cid)"
  by (simp add: tracks_def start_progress_def store_write_def start_entry_def)

lemma start_progress_rest: "files (start_progress w cid) = files w" "dirs (start_progress w cid) = dirs w"
  by (simp_all add: start_progress_def store_write_def)

lemma tracks_set_entry:
  assumes "tracks S cid T es w"
  shows "\<exists>w1. set_entry w cid f = Inr w1 \<and> tracks S cid T (es @ [f (last es)]) w1
           \<and> files w1 = files w \<and> dirs w1 = dirs w"
  using assms by (simp add: tracks_def set_entry_def store_write_def)

lemma writerow_store:
  "writerow E fp r w = (res, w1) \<Longrightarrow> progress_store w1 = progress_store w \<and> trace w1 = trace w \<and> dirs w1 = dirs w"
  by (auto simp: writerow_def split: option.splits)

lemma write_rows_store:
  "write_rows E fp rs rc w = (res, w1) \<Longrightarrow> progress_store w1 = progress_store w \<and> trace w1 = trace w \<and> dirs w1 = dirs w"
proof (induction rs arbitrary: rc w)
  case Nil
  then show ?case by simp
next
  case (Cons r rs)
  obtain x w2 where wr: "writerow E fp r w = (x, w2)" by (cases "writerow E fp r w")
  note st = writerow_store [OF wr]
  show ?case
  proof (cases x)
    case (Inl e)
    then show ?thesis using Cons.prems wr st by simp
  next
    case (Inr u)
    then have "write_rows E fp rs (rc + 1) w2 = (res, w1)" using Cons.prems wr by simp
    from Cons.IH [OF this] st show ?thesis by simp
  qed
qed

lemma tracks_cong:
  "tracks S cid T es w \<Longrightarrow> progress_store w1 = progress_store w \<Longrightarrow> trace w1 = trace w \<Longrightarrow> tracks S cid T es w1"
  by (simp add: tracks_def)

lemma write_rows_count: "write_rows E fp rs rc w = (Inr n, w1) \<Longrightarrow> n = rc + length rs"
proof (induction rs arbitrary: rc w)
  case Nil
  then show ?case by simp
next
  case (Cons r rs)
  obtain x w2 where wr: "writerow E fp r w = (x, w2)" by (cases "writerow E fp r w")
  show ?case
  proof (cases x)
    case (Inl e)
    then show ?thesis using Cons.prems wr by simp
  next
    case (Inr u)
    then have "write_rows E fp rs (rc + 1) w2 = (Inr n, w1)" using Cons.prems wr by simp
    from Cons.IH [OF this] show ?thesis by simp
  qed
qed

lemma writerow_files:
  "writerow E fp r w = (Inr u, w1) \<Longrightarrow> files w fp = Some old \<Longrightarrow>
   files w1 = (files w)(fp \<mapsto> old @ [r]) \<and> write_error E r = None"
  by (auto simp: writerow_def split: option.splits)

lemma write_rows_files:
  "write_rows E fp rs rc w = (Inr n, w1) \<Longrightarrow> files w fp = Some old \<Longrightarrow>
   files w1 = (files w)(fp \<mapsto> old @ rs) \<and> (\<forall>r \<in> set rs. write_error E r = None)"
proof (induction rs arbitrary: rc w old)
  case Nil
  then show ?case by auto
next
  case (Cons r rs)
  obtain x w2 where wr: "writerow E fp r w = (x, w2)" by (cases "writerow E fp r w")
  show ?case
  proof (cases x)
    case (Inl e)
    then show ?thesis using Cons.prems wr by simp
  next
    case (Inr u)
    then have rec: "write_rows E fp rs (rc + 1) w2 = (Inr n, w1)" using Cons.prems wr by simp
    have f2: "files w2 = (files w)(fp \<mapsto> old @ [r])" and ok: "write_error E r = None"
      using writerow_files [of E fp r w u w2 old] wr Inr Cons.prems(2) by auto
    then have "files w2 fp = Some (old @ [r])" by simp
    note ih = Cons.IH [OF rec this]
    have a: "files w1 = (files w2)(fp \<mapsto> (old @ [r]) @ rs)" using ih by (rule conjunct1)
    have b: "\<forall>r \<in> set rs. write_error E r = None" using ih by (rule conjunct2)
    have "files w1 = (files w)(fp \<mapsto> old @ r # rs)" unfolding a f2 by simp
    then show ?thesis using b ok by simp
  qed
qed

lemma write_rows_ok:
  "\<forall>r \<in> set rs. write_error E r = None \<Longrightarrow> \<exists>w1. write_rows E fp rs rc w = (Inr (rc + length rs), w1)"
proof (induction rs arbitrary: rc w)
  case Nil
  then show ?case by simp
next
  case (Cons r rs)
  then have "writerow E fp r w = (Inr (), snd (writerow E fp r w))" by (simp add: writerow_def)
  moreover obtain w1 where "write_rows E fp rs (rc + 1) (snd (writerow E fp r w)) = (Inr (rc + 1 + length rs), w1)"
    using Cons.IH [of "rc + 1" "snd (writerow E fp r w)"] Cons.prems by auto
  ultimately show ?case by (metis (no_types, lifting) write_rows.simps(2) case_prod_conv sum.case(2) add.assoc add.commute length_Cons plus_1_eq_Suc)
qed


lemma batch_marks_0: "batch_marks rc 0 = []"
  by (subst batch_marks.simps) simp

lemma batch_marks_step:
  "0 < n \<Longrightarrow> batch_marks rc n
     = (rc + min STREAMING_BATCH_SIZE n)
       # batch_marks (rc + min STREAMING_BATCH_SIZE n) (n - min STREAMING_BATCH_SIZE n)"
  by (subst batch_marks.simps) simp

lemma fetchmany_empty:
  "pending cur = [] \<Longrightarrow>
   fetchmany cur n = (case fetch_error cur of Some e \<Rightarrow> Inl e | None \<Rightarrow> Inr ([], cur))"
  by (simp add: fetchmany_def)

lemma fetchmany_rows:
  "pending cur \<noteq> [] \<Longrightarrow>
   fetchmany cur n = Inr (take n (pending cur), cur\<lparr>pending := drop n (pending cur)\<rparr>)"
  by (simp add: fetchmany_def)

lemma stream_loop_empty:
  "pending cur = [] \<Longrightarrow>
   stream_loop E cid fp cur hw rc w
     = (case fetch_error cur of Some e \<Rightarrow> (Inl e, w) | None \<Rightarrow> (Inr rc, w))"
  by (subst stream_loop.simps) (simp add: fetchmany_empty split: option.splits)

lemma stream_loop_rows:
  assumes "pending cur \<noteq> []"
  shows "stream_loop E cid fp cur hw rc w =
     (case (if \<not> hw then writerow E fp (keys cur) w else (Inr (), w)) of
        (Inl e, w1) \<Rightarrow> (Inl e, w1)
      | (Inr u, w1) \<Rightarrow>
          (case write_rows E fp (take STREAMING_BATCH_SIZE (pending cur)) rc w1 of
             (Inl e, w2) \<Rightarrow> (Inl e, w2)
           | (Inr rc1, w2) \<Rightarrow>
               (case set_entry w2 cid (\<lambda>entry. entry\<lparr>processed := int rc1\<rparr>) of
                  Inl e \<Rightarrow> (Inl e, w2)
                | Inr w3 \<Rightarrow>
                    stream_loop E cid fp (cur\<lparr>pending := drop STREAMING_BATCH_SIZE (pending cur)\<rparr>)
                      True rc1 w3)))"
proof -
  have "take STREAMING_BATCH_SIZE (pending cur) \<noteq> []"
    using assms by (simp add: STREAMING_BATCH_SIZE_def)
  then show ?thesis
    by (subst stream_loop.simps) (simp add: fetchmany_rows [OF assms])
qed

lemma stream_loop_tracks:
  assumes "tracks S cid T es w" and "stream_loop E cid fp cur hw rc w = (r, w1)"
  shows "\<exists>vs rest. batch_marks rc (length (pending cur)) = vs @ rest
          \<and> tracks S cid T (es @ map (\<lambda>v. (last es)\<lparr>processed := int v\<rparr>) vs) w1
          \<and> dirs w1 = dirs w
          \<and> (\<forall>n. r = Inr n \<longrightarrow> rest = [] \<and> n = rc + length (pending cur) \<and> fetch_error cur = None)"
  using assms
proof (induction "length (pending cur)" arbitrary: cur hw rc w es rule: less_induct)
  case less
  show ?case
  proof (cases "pending cur = []")
    case True
    have "w1 = w" and "\<forall>n. r = Inr n \<longrightarrow> n = rc \<and> fetch_error cur = None"
      using less.prems(2) True by (auto simp: stream_loop_empty split: option.splits)
    then show ?thesis using less.prems(1) True
      by (intro exI [of _ "[]"]) (simp add: batch_marks_0)
  next
    case False
    let ?p = "pending cur"
    let ?marks = "batch_marks rc (length ?p)"
    have keep: "\<And>w2. progress_store w2 = progress_store w \<Longrightarrow> trace w2 = trace w \<Longrightarrow>
        dirs w2 = dirs w \<Longrightarrow>
        ?marks = [] @ ?marks \<and> tracks S cid T (es @ map (\<lambda>v. (last es)\<lparr>processed := int v\<rparr>) []) w2
        \<and> dirs w2 = dirs w"
      using less.prems(1) by (simp add: tracks_def)
    obtain x wa where hdr: "(if \<not> hw then writerow E fp (keys cur) w else (Inr (), w)) = (x, wa)"
      by (cases "if \<not> hw then writerow E fp (keys cur) w else (Inr (), w)")
    have wa: "progress_store wa = progress_store w \<and> trace wa = trace w \<and> dirs wa = dirs w"
      using hdr writerow_store [of E fp "keys cur" w x wa] by (auto split: if_splits)
    show ?thesis
    proof (cases x)
      case (Inl e)
      then have "r = Inl e" and "w1 = wa"
        using less.prems(2) hdr by (simp_all add: stream_loop_rows [OF False])
      then show ?thesis using keep [of wa] wa by blast
    next
      case (Inr u)
      obtain y wb where wr: "write_rows E fp (take STREAMING_BATCH_SIZE ?p) rc wa = (y, wb)"
        by (cases "write_rows E fp (take STREAMING_BATCH_SIZE ?p) rc wa")
      have wb: "progress_store wb = progress_store w \<and> trace wb = trace w \<and> dirs wb = dirs w"
        using write_rows_store [OF wr] wa by simp
      show ?thesis
      proof (cases y)
        case (Inl e)
        then have "r = Inl e" and "w1 = wb"
          using less.prems(2) hdr Inr wr by (simp_all add: stream_loop_rows [OF False])
        then show ?thesis using keep [of wb] wb by blast
      next
        case (Inr rc1)
        have rc1: "rc1 = rc + min STREAMING_BATCH_SIZE (length ?p)"
          using write_rows_count [of E fp "take STREAMING_BATCH_SIZE ?p" rc wa rc1 wb] wr Inr
          by (simp add: min.commute)
        have tb: "tracks S cid T es wb" using less.prems(1) wb by (simp add: tracks_def)
        let ?e1 = "(last es)\<lparr>processed := int rc1\<rparr>"
        obtain wc where se: "set_entry wb cid (\<lambda>entry. entry\<lparr>processed := int rc1\<rparr>) = Inr wc"
          and tc: "tracks S cid T (es @ [?e1]) wc" and dc: "dirs wc = dirs wb"
          using tracks_set_entry [OF tb, of "\<lambda>entry. entry\<lparr>processed := int rc1\<rparr>"] by auto
        let ?cur = "cur\<lparr>pending := drop STREAMING_BATCH_SIZE ?p\<rparr>"
        have rec: "stream_loop E cid fp ?cur True rc1 wc = (r, w1)"
          using less.prems(2) hdr \<open>x = Inr u\<close> wr Inr se by (simp add: stream_loop_rows [OF False])
        have smaller: "length (pending ?cur) < length ?p"
          using False by (simp add: STREAMING_BATCH_SIZE_def)
        from less.hyps [OF smaller tc rec]
        obtain vs rest where
          m: "batch_marks rc1 (length (pending ?cur)) = vs @ rest"
          and t: "tracks S cid T ((es @ [?e1]) @ map (\<lambda>v. (last (es @ [?e1]))\<lparr>processed := int v\<rparr>) vs) w1"
          and d: "dirs w1 = dirs wc"
          and ok: "\<forall>n. r = Inr n \<longrightarrow> rest = [] \<and> n = rc1 + length (pending ?cur) \<and> fetch_error ?cur = None"
          by blast
        have len: "length (pending ?cur) = length ?p - min STREAMING_BATCH_SIZE (length ?p)"
          by simp
        have m': "batch_marks rc1 (length ?p - min STREAMING_BATCH_SIZE (length ?p)) = vs @ rest"
          using m unfolding len .
        have "?marks = rc1 # batch_marks rc1 (length ?p - min STREAMING_BATCH_SIZE (length ?p))"
          using batch_marks_step [of "length ?p" rc] False unfolding rc1 by simp
        then have marks: "?marks = (rc1 # vs) @ rest"
          unfolding m' by simp
        have t': "tracks S cid T (es @ map (\<lambda>v. (last es)\<lparr>processed := int v\<rparr>) (rc1 # vs)) w1"
          using t by simp
        have fe: "fetch_error ?cur = fetch_error cur" by simp
        have total: "rc1 + length (pending ?cur) = rc + length ?p" unfolding rc1 len by simp
        have ok': "\<forall>n. r = Inr n \<longrightarrow> rest = [] \<and> n = rc + length ?p \<and> fetch_error cur = None"
          using ok unfolding fe total .
        have d': "dirs w1 = dirs w" using d dc wb by simp
        show ?thesis
          using marks t' d' ok' by (intro exI [of _ "rc1 # vs"] exI [of _ rest] conjI)
      qed
    qed
  qed
qed


lemma set_entry_rest:
  "set_entry w cid f = Inr w1 \<Longrightarrow> files w1 = files w \<and> dirs w1 = dirs w"
  by (auto simp: set_entry_def store_write_def split: option.splits)

lemma set_entry_present:
  "progress_store w cid = Some en \<Longrightarrow>
   set_entry w cid f = Inr (store_write w ((progress_store w)(cid \<mapsto> f en)))"
  by (simp add: set_entry_def)

lemma stream_loop_files:
  assumes "stream_loop E cid fp cur hw rc w = (Inr n, w1)" and "files w fp = Some old"
  shows "files w1 = (files w)(fp \<mapsto> old @ (if hw \<or> pending cur = [] then [] else [keys cur]) @ pending cur)"
  using assms
proof (induction "length (pending cur)" arbitrary: cur hw rc w old rule: less_induct)
  case less
  show ?case
  proof (cases "pending cur = []")
    case True
    have "w1 = w" using less.prems(1) True by (auto simp: stream_loop_empty split: option.splits)
    moreover have "(files w)(fp \<mapsto> old) = files w" using less.prems(2) by (rule map_upd_triv)
    ultimately show ?thesis using True by simp
  next
    case False
    let ?p = "pending cur"
    let ?hdr = "if hw then [] else [keys cur]"
    obtain x wa where hdr: "(if \<not> hw then writerow E fp (keys cur) w else (Inr (), w)) = (x, wa)"
      by (cases "if \<not> hw then writerow E fp (keys cur) w else (Inr (), w)")
    obtain u where x: "x = Inr u"
      using less.prems(1) hdr by (cases x) (simp_all add: stream_loop_rows [OF False])
    have fa: "files wa = (files w)(fp \<mapsto> old @ ?hdr)"
    proof (cases hw)
      case True
      then have "wa = w" using hdr by simp
      moreover have "(files w)(fp \<mapsto> old) = files w" using less.prems(2) by (rule map_upd_triv)
      ultimately show ?thesis using True by simp
    next
      case False
      then have "writerow E fp (keys cur) w = (Inr u, wa)" using hdr x by simp
      from writerow_files [OF this less.prems(2)] False show ?thesis by simp
    qed
    obtain y wb where wr: "write_rows E fp (take STREAMING_BATCH_SIZE ?p) rc wa = (y, wb)"
      by (cases "write_rows E fp (take STREAMING_BATCH_SIZE ?p) rc wa")
    obtain rc1 where y: "y = Inr rc1"
      using less.prems(1) hdr x wr by (cases y) (simp_all add: stream_loop_rows [OF False])
    have "files wa fp = Some (old @ ?hdr)" unfolding fa by simp
    from write_rows_files [OF wr [unfolded y] this]
    have fb: "files wb = (files wa)(fp \<mapsto> (old @ ?hdr) @ take STREAMING_BATCH_SIZE ?p)"
      by (rule conjunct1)
    obtain z where se: "set_entry wb cid (\<lambda>entry. entry\<lparr>processed := int rc1\<rparr>) = z" by simp
    obtain wc where z: "z = Inr wc"
      using less.prems(1) hdr x wr y se by (cases z) (simp_all add: stream_loop_rows [OF False])
    have fc: "files wc = files wb" using set_entry_rest [of wb cid _ wc] se z by simp
    let ?cur = "cur\<lparr>pending := drop STREAMING_BATCH_SIZE ?p\<rparr>"
    have rec: "stream_loop E cid fp ?cur True rc1 wc = (Inr n, w1)"
      using less.prems(1) hdr x wr y se z by (simp add: stream_loop_rows [OF False])
    have smaller: "length (pending ?cur) < length ?p"
      using False by (simp add: STREAMING_BATCH_SIZE_def)
    have "files wc fp = Some ((old @ ?hdr) @ take STREAMING_BATCH_SIZE ?p)"
      unfolding fc fb by simp
    from less.hyps [OF smaller rec this]
    have "files w1 = (files wc)(fp \<mapsto> ((old @ ?hdr) @ take STREAMING_BATCH_SIZE ?p) @ [] @ pending ?cur)"
      by simp
    then have "files w1 = (files w)(fp \<mapsto> old @ ?hdr @ ?p)"
      unfolding fc fb fa by simp
    then show ?thesis using False by simp
  qed
qed

lemma stream_loop_ok:
  assumes "fetch_error cur = None" and "\<forall>r \<in> set (pending cur). write_error E r = None"
    and "hw \<or> write_error E (keys cur) = None" and "progress_store w cid = Some en"
  shows "\<exists>n w1. stream_loop E cid fp cur hw rc w = (Inr n, w1)"
  using assms
proof (induction "length (pending cur)" arbitrary: cur hw rc w en rule: less_induct)
  case less
  show ?case
  proof (cases "pending cur = []")
    case True
    then show ?thesis using less.prems(1) by (simp add: stream_loop_empty)
  next
    case False
    let ?p = "pending cur"
    obtain wa where hdr: "(if \<not> hw then writerow E fp (keys cur) w else (Inr (), w)) = (Inr (), wa)"
      using less.prems(3) by (cases hw) (auto simp: writerow_def)
    have sa: "progress_store wa = progress_store w"
      using hdr writerow_store [of E fp "keys cur" w "Inr ()" wa] by (auto split: if_splits)
    have "\<forall>r \<in> set (take STREAMING_BATCH_SIZE ?p). write_error E r = None"
      using less.prems(2) in_set_takeD by fast
    from write_rows_ok [OF this, of fp rc wa]
    obtain wb where wr: "write_rows E fp (take STREAMING_BATCH_SIZE ?p) rc wa
        = (Inr (rc + length (take STREAMING_BATCH_SIZE ?p)), wb)" by blast
    let ?rc1 = "rc + length (take STREAMING_BATCH_SIZE ?p)"
    have sb: "progress_store wb cid = Some en"
      using write_rows_store [OF wr] sa less.prems(4) by simp
    let ?wc = "store_write wb ((progress_store wb)(cid \<mapsto> en\<lparr>processed := int ?rc1\<rparr>))"
    have se: "set_entry wb cid (\<lambda>entry. entry\<lparr>processed := int ?rc1\<rparr>) = Inr ?wc"
      using sb by (rule set_entry_present)
    let ?cur = "cur\<lparr>pending := drop STREAMING_BATCH_SIZE ?p\<rparr>"
    have step: "stream_loop E cid fp cur hw rc w = stream_loop E cid fp ?cur True ?rc1 ?wc"
      unfolding stream_loop_rows [OF False] hdr using wr se by simp
    have smaller: "length (pending ?cur) < length ?p"
      using False by (simp add: STREAMING_BATCH_SIZE_def)
    have a1: "fetch_error ?cur = None" using less.prems(1) by simp
    have a2: "\<forall>r \<in> set (pending ?cur). write_error E r = None"
      using less.prems(2) in_set_dropD by fastforce
    have a4: "progress_store ?wc cid = Some (en\<lparr>processed := int ?rc1\<rparr>)"
      by (simp add: store_write_def)
    from less.hyps [OF smaller a1 a2 _ a4, of True ?rc1] show ?thesis unfolding step by simp
  qed
qed


lemma count_rows_tracks:
  assumes "tracks S cid T [start_entry] w"
  shows "\<exists>w1. count_rows E cid sql w = (Inr (), w1) \<and> files w1 = files w \<and> dirs w1 = dirs w
           \<and> tracks S cid T ([start_entry] @ count_entries (execute_scalar E (count_sql sql))) w1"
proof (cases "execute_scalar E (count_sql sql)")
  case (Inl e)
  from tracks_set_entry [OF assms, of "\<lambda>entry. entry\<lparr>status := lit ''exporting''\<rparr>"]
  obtain w1 where "set_entry w cid (\<lambda>entry. entry\<lparr>status := lit ''exporting''\<rparr>) = Inr w1"
    and "tracks S cid T ([start_entry] @ [start_entry\<lparr>status := lit ''exporting''\<rparr>]) w1"
    and "files w1 = files w" and "dirs w1 = dirs w" by auto
  then show ?thesis using Inl by (simp add: count_rows_def count_entries_def)
next
  case (Inr n)
  from tracks_set_entry [OF assms, of "\<lambda>entry. entry\<lparr>total := n\<rparr>"]
  obtain w1 where s1: "set_entry w cid (\<lambda>entry. entry\<lparr>total := n\<rparr>) = Inr w1"
    and t1: "tracks S cid T ([start_entry] @ [start_entry\<lparr>total := n\<rparr>]) w1"
    and r1: "files w1 = files w" "dirs w1 = dirs w" by auto
  from tracks_set_entry [OF t1, of "\<lambda>entry. entry\<lparr>status := lit ''exporting''\<rparr>"]
  obtain w2 where s2: "set_entry w1 cid (\<lambda>entry. entry\<lparr>status := lit ''exporting''\<rparr>) = Inr w2"
    and t2: "tracks S cid T (([start_entry] @ [start_entry\<lparr>total := n\<rparr>])
               @ [start_entry\<lparr>total := n, status := lit ''exporting''\<rparr>]) w2"
    and r2: "files w2 = files w1" "dirs w2 = dirs w1" by auto
  show ?thesis using Inr s1 s2 t2 r1 r2 by (simp add: count_rows_def count_entries_def)
qed

lemma export_rows_failure:
  assumes "tracks S cid T es w" and "export_rows E cid fp sql w = (Inl e, w1)"
  shows "\<exists>vs rest. loop_entries (last es) (yielded E sql) = vs @ rest \<and> tracks S cid T (es @ vs) w1
           \<and> dirs w1 = dirs w"
proof (cases "execute E sql")
  case (Inl e1)
  then have "w1 = w" using assms(2) by (simp add: export_rows_def)
  then show ?thesis using assms(1)
      by (intro exI [of _ "[]"] exI [of _ "loop_entries (last es) (yielded E sql)"]) simp
next
  case (Inr cur)
  show ?thesis
  proof (cases "open_error E fp")
    case (Some e1)
    then have "w1 = w" using assms(2) Inr by (simp add: export_rows_def)
    then show ?thesis using assms(1)
      by (intro exI [of _ "[]"] exI [of _ "loop_entries (last es) (yielded E sql)"]) simp
  next
    case None
    let ?w0 = "w\<lparr>files := (files w)(fp \<mapsto> [])\<rparr>"
    have t0: "tracks S cid T es ?w0" using assms(1) by (simp add: tracks_def)
    obtain x wa where lp: "stream_loop E cid fp cur False 0 ?w0 = (x, wa)"
      by (cases "stream_loop E cid fp cur False 0 ?w0")
    from stream_loop_tracks [OF t0 lp]
    obtain vs rest where m: "batch_marks 0 (length (pending cur)) = vs @ rest"
      and t: "tracks S cid T (es @ map (\<lambda>v. (last es)\<lparr>processed := int v\<rparr>) vs) wa"
      and d: "dirs wa = dirs ?w0"
      and ok: "\<forall>n. x = Inr n \<longrightarrow> rest = [] \<and> n = 0 + length (pending cur) \<and> fetch_error cur = None"
      by blast
    have le: "loop_entries (last es) (yielded E sql)
        = map (\<lambda>v. (last es)\<lparr>processed := int v\<rparr>) vs @ map (\<lambda>v. (last es)\<lparr>processed := int v\<rparr>) rest"
      using m Inr by (simp add: loop_entries_def yielded_def)
    show ?thesis
    proof (cases x)
      case (Inl e1)
      then have "w1 = wa" using assms(2) Inr None lp by (simp add: export_rows_def)
      then show ?thesis using le t d by (intro exI conjI) simp_all
    next
      case (Inr n)
      from tracks_set_entry [OF t, of "\<lambda>entry. entry\<lparr>status := lit ''completed''\<rparr>"]
      obtain wb where "set_entry wa cid (\<lambda>entry. entry\<lparr>status := lit ''completed''\<rparr>) = Inr wb" by auto
      then have False using assms(2) \<open>execute E sql = Inr cur\<close> None lp Inr
        by (simp add: export_rows_def)
      then show ?thesis ..
    qed
  qed
qed

lemma export_rows_success:
  assumes "tracks S cid T es w" and "export_rows E cid fp sql w = (Inr res, w1)"
  shows "\<exists>cur. execute E sql = Inr cur \<and> fetch_error cur = None \<and> open_error E fp = None
           \<and> res = \<lparr>result_status = lit ''success'', path = fp, row_count = int (length (pending cur))\<rparr>
           \<and> files w1 = (files w)(fp \<mapsto> (if pending cur = [] then [] else keys cur # pending cur))
           \<and> dirs w1 = dirs w
           \<and> tracks S cid T (es @ loop_entries (last es) (yielded E sql)
                @ [(last (es @ loop_entries (last es) (yielded E sql)))\<lparr>status := lit ''completed''\<rparr>]) w1"
proof (cases "execute E sql")
  case (Inl e1)
  then show ?thesis using assms(2) by (simp add: export_rows_def)
next
  case (Inr cur)
  show ?thesis
  proof (cases "open_error E fp")
    case (Some e1)
    then show ?thesis using assms(2) Inr by (simp add: export_rows_def)
  next
    case None
    let ?w0 = "w\<lparr>files := (files w)(fp \<mapsto> [])\<rparr>"
    have t0: "tracks S cid T es ?w0" using assms(1) by (simp add: tracks_def)
    obtain x wa where lp: "stream_loop E cid fp cur False 0 ?w0 = (x, wa)"
      by (cases "stream_loop E cid fp cur False 0 ?w0")
    obtain n where x: "x = Inr n"
      using assms(2) Inr None lp by (cases x) (simp_all add: export_rows_def)
    from stream_loop_tracks [OF t0 lp]
    obtain vs rest where m: "batch_marks 0 (length (pending cur)) = vs @ rest"
      and t: "tracks S cid T (es @ map (\<lambda>v. (last es)\<lparr>processed := int v\<rparr>) vs) wa"
      and d: "dirs wa = dirs ?w0"
      and ok: "\<forall>n. x = Inr n \<longrightarrow> rest = [] \<and> n = 0 + length (pending cur) \<and> fetch_error cur = None"
      by blast
    have rest: "rest = []" and n: "n = length (pending cur)" and fe: "fetch_error cur = None"
      using ok x by simp_all
    have le: "loop_entries (last es) (yielded E sql) = map (\<lambda>v. (last es)\<lparr>processed := int v\<rparr>) vs"
      using m rest Inr by (simp add: loop_entries_def yielded_def)
    have t': "tracks S cid T (es @ loop_entries (last es) (yielded E sql)) wa"
      using t unfolding le .
    from tracks_set_entry [OF t', of "\<lambda>entry. entry\<lparr>status := lit ''completed''\<rparr>"]
    obtain wb where se: "set_entry wa cid (\<lambda>entry. entry\<lparr>status := lit ''completed''\<rparr>) = Inr wb"
      and tb: "tracks S cid T ((es @ loop_entries (last es) (yielded E sql))
                @ [(last (es @ loop_entries (last es) (yielded E sql)))\<lparr>status := lit ''completed''\<rparr>]) wb"
      and fb: "files wb = files wa" and db: "dirs wb = dirs wa" by auto
    have out: "res = \<lparr>result_status = lit ''success'', path = fp, row_count = int n\<rparr>" "w1 = wb"
      using assms(2) Inr None lp x se by (simp_all add: export_rows_def)
    have "files ?w0 fp = Some []" by simp
    from stream_loop_files [OF lp [unfolded x] this]
    have "files wa = (files ?w0)(fp \<mapsto> (if pending cur = [] then [] else keys cur # pending cur))"
      by simp
    then have fw: "files w1 = (files w)(fp \<mapsto> (if pending cur = [] then [] else keys cur # pending cur))"
      unfolding out fb by simp
    have dw: "dirs w1 = dirs w" unfolding out db d by simp
    show ?thesis
      using Inr fe None out(1) [unfolded n] fw dw tb [folded out(2)]
      by (intro exI [of _ cur] conjI) simp_all
  qed
qed


lemma stream_to_file_early:
  "get_sql_and_limit E q = Inl e \<Longrightarrow> stream_to_file E q cid fp w = (Inl e, w)"
  "get_sql_and_limit E q = Inr (sql0, limit) \<Longrightarrow> parse_script E sql0 (engine q) = Inl e \<Longrightarrow>
     stream_to_file E q cid fp w = (Inl e, w)"
  by (simp_all add: stream_to_file_def)

lemma stream_to_file_failure:
  assumes "get_sql_and_limit E q = Inr (sql0, limit)"
    and "parse_script E sql0 (engine q) = Inr stmts"
    and "stream_to_file E q cid fp w = (Inl e, w1)"
  shows "\<exists>es rest. export_entries E (streaming_sql q (tables E) sql0 limit stmts) = es @ rest
           \<and> tracks (progress_store w) cid (trace w) es w1 \<and> dirs w1 = dirs w"
proof -
  let ?sql = "streaming_sql q (tables E) sql0 limit stmts"
  let ?w0 = "start_progress w cid"
  let ?c = "count_entries (execute_scalar E (count_sql ?sql))"
  note t0 = tracks_start [of w cid]
  show ?thesis
  proof (cases "connect_error E")
    case (Some e1)
    then have "w1 = ?w0" using assms by (simp add: stream_to_file_def Let_def)
    then show ?thesis using t0 start_progress_rest(2) [of w cid]
      by (intro exI [of _ "[start_entry]"]
          exI [of _ "?c @ loop_entries (last ?c) (yielded E ?sql)"])
        (simp add: export_entries_def Let_def)
  next
    case None
    from count_rows_tracks [OF t0, of E ?sql]
    obtain wa where cr: "count_rows E cid ?sql ?w0 = (Inr (), wa)"
      and da: "dirs wa = dirs ?w0"
      and ta: "tracks (progress_store w) cid (trace w) ([start_entry] @ ?c) wa" by blast
    have ex: "export_rows E cid fp ?sql wa = (Inl e, w1)"
      using assms None cr by (simp add: stream_to_file_def Let_def)
    have c_ne: "?c \<noteq> []" by (simp add: count_entries_def split: sum.splits)
    from export_rows_failure [OF ta ex]
    obtain vs rest where le: "loop_entries (last ([start_entry] @ ?c)) (yielded E ?sql) = vs @ rest"
      and tb: "tracks (progress_store w) cid (trace w) (([start_entry] @ ?c) @ vs) w1"
      and db: "dirs w1 = dirs wa" by blast
    have "export_entries E ?sql = (([start_entry] @ ?c) @ vs) @ rest"
      using le c_ne by (simp add: export_entries_def Let_def)
    then show ?thesis using tb db da start_progress_rest(2) [of w cid]
      by (intro exI [of _ "([start_entry] @ ?c) @ vs"] exI [of _ rest]) simp
  qed
qed

lemma stream_to_file_success:
  assumes "stream_to_file E q cid fp w = (Inr res, w1)"
  shows "\<exists>sql0 limit stmts cur.
           get_sql_and_limit E q = Inr (sql0, limit)
           \<and> parse_script E sql0 (engine q) = Inr stmts
           \<and> connect_error E = None
           \<and> execute E (streaming_sql q (tables E) sql0 limit stmts) = Inr cur
           \<and> fetch_error cur = None \<and> open_error E fp = None
           \<and> res = \<lparr>result_status = lit ''success'', path = fp, row_count = int (length (pending cur))\<rparr>
           \<and> files w1 = (files w)(fp \<mapsto> (if pending cur = [] then [] else keys cur # pending cur))
           \<and> dirs w1 = dirs w
           \<and> tracks (progress_store w) cid (trace w)
                (export_entries E (streaming_sql q (tables E) sql0 limit stmts)
                 @ [final_entry E (streaming_sql q (tables E) sql0 limit stmts)]) w1"
proof -
  obtain sql0 limit where g: "get_sql_and_limit E q = Inr (sql0, limit)"
    using assms by (cases "get_sql_and_limit E q") (auto simp: stream_to_file_def)
  obtain stmts where p: "parse_script E sql0 (engine q) = Inr stmts"
    using assms g by (cases "parse_script E sql0 (engine q)") (auto simp: stream_to_file_def)
  let ?sql = "streaming_sql q (tables E) sql0 limit stmts"
  let ?w0 = "start_progress w cid"
  let ?c = "count_entries (execute_scalar E (count_sql ?sql))"
  have ce: "connect_error E = None"
    using assms g p by (cases "connect_error E") (auto simp: stream_to_file_def Let_def)
  note t0 = tracks_start [of w cid]
  from count_rows_tracks [OF t0, of E ?sql]
  obtain wa where cr: "count_rows E cid ?sql ?w0 = (Inr (), wa)"
    and fa: "files wa = files ?w0" and da: "dirs wa = dirs ?w0"
    and ta: "tracks (progress_store w) cid (trace w) ([start_entry] @ ?c) wa" by blast
  have ex: "export_rows E cid fp ?sql wa = (Inr res, w1)"
    using assms g p ce cr by (simp add: stream_to_file_def Let_def)
  have c_ne: "?c \<noteq> []" by (simp add: count_entries_def split: sum.splits)
  from export_rows_success [OF ta ex]
  obtain cur where a: "execute E ?sql = Inr cur" "fetch_error cur = None" "open_error E fp = None"
      "res = \<lparr>result_status = lit ''success'', path = fp, row_count = int (length (pending cur))\<rparr>"
    and fw: "files w1 = (files wa)(fp \<mapsto> (if pending cur = [] then [] else keys cur # pending cur))"
    and dw: "dirs w1 = dirs wa"
    and tw: "tracks (progress_store w) cid (trace w)
               (([start_entry] @ ?c) @ loop_entries (last ([start_entry] @ ?c)) (yielded E ?sql)
                @ [(last (([start_entry] @ ?c) @ loop_entries (last ([start_entry] @ ?c)) (yielded E ?sql)))
                     \<lparr>status := lit ''completed''\<rparr>]) w1"
    by blast
  have ee: "export_entries E ?sql = ([start_entry] @ ?c) @ loop_entries (last ([start_entry] @ ?c)) (yielded E ?sql)"
    using c_ne by (simp add: export_entries_def Let_def)
  have tw': "tracks (progress_store w) cid (trace w) (export_entries E ?sql @ [final_entry E ?sql]) w1"
    using tw unfolding final_entry_def ee by simp
  have fw': "files w1 = (files w)(fp \<mapsto> (if pending cur = [] then [] else keys cur # pending cur))"
    unfolding fw fa start_progress_rest ..
  have dw': "dirs w1 = dirs w" unfolding dw da start_progress_rest ..
  show ?thesis using g p ce a fw' dw' tw'
    by (intro exI [of _ sql0] exI [of _ limit] exI [of _ stmts] exI [of _ cur] conjI)
qed

lemma stream_to_file_ok:
  assumes "get_sql_and_limit E q = Inr (sql0, limit)"
    and "parse_script E sql0 (engine q) = Inr stmts"
    and "connect_error E = None"
    and "execute E (streaming_sql q (tables E) sql0 limit stmts) = Inr cur"
    and "fetch_error cur = None" and "open_error E fp = None"
    and "\<forall>r \<in> set (keys cur # pending cur). write_error E r = None"
  shows "\<exists>res w1. stream_to_file E q cid fp w = (Inr res, w1)"
proof -
  let ?sql = "streaming_sql q (tables E) sql0 limit stmts"
  let ?w0 = "start_progress w cid"
  let ?c = "count_entries (execute_scalar E (count_sql ?sql))"
  from count_rows_tracks [OF tracks_start [of w cid], of E ?sql]
  obtain wa where cr: "count_rows E cid ?sql ?w0 = (Inr (), wa)"
    and ta: "tracks (progress_store w) cid (trace w) ([start_entry] @ ?c) wa" by blast
  let ?wb = "wa\<lparr>files := (files wa)(fp \<mapsto> [])\<rparr>"
  have sb: "progress_store ?wb cid = Some (last ([start_entry] @ ?c))"
    using ta by (simp add: tracks_def)
  have tb: "tracks (progress_store w) cid (trace w) ([start_entry] @ ?c) ?wb"
    using ta by (simp add: tracks_def)
  from stream_loop_ok [OF assms(5) _ _ sb, of E False fp 0] assms(7)
  obtain n wc where lp: "stream_loop E cid fp cur False 0 ?wb = (Inr n, wc)" by auto
  from stream_loop_tracks [OF tb lp]
  obtain vs where "tracks (progress_store w) cid (trace w)
      (([start_entry] @ ?c) @ map (\<lambda>v. (last ([start_entry] @ ?c))\<lparr>processed := int v\<rparr>) vs) wc"
    by blast
  from tracks_set_entry [OF this, of "\<lambda>entry. entry\<lparr>status := lit ''completed''\<rparr>"]
  obtain wd where "set_entry wc cid (\<lambda>entry. entry\<lparr>status := lit ''completed''\<rparr>) = Inr wd" by auto
  then show ?thesis
    using assms(1-4,6) cr lp by (simp add: stream_to_file_def Let_def export_rows_def)
qed

section \<open>Facts about the limit resolver, the progress entries and the example\<close>

lemma truthy_Some: "truthy x \<Longrightarrow> \<exists>s. x = Some s \<and> s \<noteq> []"
  by (cases x) (auto simp: truthy_def)

lemma query0_falsy: "\<not> truthy (select_sql query0)"
  by (simp add: query0_def truthy_def)





lemma count_entries_facts:
  "count_entries c \<noteq> []"
  "en \<in> set (count_entries c) \<Longrightarrow> processed en = 0"
  "en \<in> set (count_entries c) \<Longrightarrow> status en = lit ''counting'' \<or> status en = lit ''exporting''"
  "status (last (count_entries c)) = lit ''exporting''"
  "total (last (count_entries c)) = (case c of Inr n \<Rightarrow> n | Inl e \<Rightarrow> - 1)"
  by (auto simp: count_entries_def start_entry_def split: sum.splits)


lemma export_entries_status:
  "en \<in> set (export_entries E sql) \<Longrightarrow> status en = lit ''counting'' \<or> status en = lit ''exporting''"
  using count_entries_facts(3) [of _ "execute_scalar E (count_sql sql)"]
    count_entries_facts(4) [of "execute_scalar E (count_sql sql)"]
  by (auto simp: export_entries_def Let_def loop_entries_def start_entry_def)



lemma tracks_current:
  "tracks S cid T es w \<Longrightarrow> get_export_progress w cid = Some (last es)
     \<and> trace w = T @ map (\<lambda>en. S(cid \<mapsto> en)) es
     \<and> (\<forall>c. c \<noteq> cid \<longrightarrow> progress_store w c = S c)"
  by (simp add: tracks_def get_export_progress_def)


lemma stream_to_file_continue:
  assumes "get_sql_and_limit E q = Inr (sql0, limit)"
    and "parse_script E sql0 (engine q) = Inr stmts"
    and "connect_error E = None"
  shows "\<exists>w2. count_rows E cid (streaming_sql q (tables E) sql0 limit stmts) (start_progress w cid)
               = (Inr (), w2)
           \<and> get_export_progress w2 cid
               = Some \<lparr>processed = 0,
                       total = (case execute_scalar E (count_sql (streaming_sql q (tables E) sql0 limit stmts)) of
                                  Inr n \<Rightarrow> n | Inl e \<Rightarrow> - 1),
                       status = lit ''exporting''\<rparr>
           \<and> files w2 = files w \<and> dirs w2 = dirs w
           \<and> stream_to_file E q cid fp w
               = export_rows E cid fp (streaming_sql q (tables E) sql0 limit stmts) w2"
proof -
  let ?sql = "streaming_sql q (tables E) sql0 limit stmts"
  let ?c = "execute_scalar E (count_sql ?sql)"
  from count_rows_tracks [OF tracks_start [of w cid], of E ?sql]
  obtain w2 where cr: "count_rows E cid ?sql (start_progress w cid) = (Inr (), w2)"
    and f: "files w2 = files (start_progress w cid)" and d: "dirs w2 = dirs (start_progress w cid)"
    and t: "tracks (progress_store w) cid (trace w) ([start_entry] @ count_entries ?c) w2" by blast
  have "last ([start_entry] @ count_entries ?c)
      = \<lparr>processed = 0, total = (case ?c of Inr n \<Rightarrow> n | Inl e \<Rightarrow> - 1), status = lit ''exporting''\<rparr>"
    by (simp add: count_entries_def start_entry_def split: sum.splits)
  then have g: "get_export_progress w2 cid
      = Some \<lparr>processed = 0, total = (case ?c of Inr n \<Rightarrow> n | Inl e \<Rightarrow> - 1), status = lit ''exporting''\<rparr>"
    using tracks_current [OF t] by simp
  have s: "stream_to_file E q cid fp w = export_rows E cid fp ?sql w2"
    using assms cr by (simp add: stream_to_file_def Let_def)
  show ?thesis using cr g f d s start_progress_rest [of w cid] by (intro exI [of _ w2]) simp
qed



lemma eval_strip0: "strip_limit latin1 (lit ''SELECT * FROM t LIMIT 101'') = lit ''SELECT * FROM t''"
  by (simp add: lit_def match_limit_def match_keyword_number_def match_run_def py_isspace_def
      match_end_def ci_letter_def ascii_lower_def re_digit_def ascii_digit_def)


lemma eval_resolve0:
  "get_sql_and_limit (env0\<lparr>execute_scalar := f\<rparr>) query0
     = Inr (lit ''SELECT * FROM t LIMIT 101'', Some 100)"
  "get_sql_and_limit (env0\<lparr>execute := g\<rparr>) query0
     = Inr (lit ''SELECT * FROM t LIMIT 101'', Some 100)"
  "get_sql_and_limit env0 query0 = Inr (lit ''SELECT * FROM t LIMIT 101'', Some 100)"
  by (simp_all add: get_sql_and_limit_def env0_def query0_def truthy_def py_last_def)




lemma eval_parse0:
  "parse_script (env0\<lparr>execute_scalar := f\<rparr>) (lit ''SELECT * FROM t LIMIT 101'') (engine query0)
     = Inr [Statement (Some 101)]"
  "parse_script (env0\<lparr>execute := g\<rparr>) (lit ''SELECT * FROM t LIMIT 101'') (engine query0)
     = Inr [Statement (Some 101)]"
  "parse_script env0 (lit ''SELECT * FROM t LIMIT 101'') (engine query0)
     = Inr [Statement (Some 101)]"
  by (simp_all add: env0_def)

lemma eval_sql0:
  "streaming_sql query0 latin1 (lit ''SELECT * FROM t LIMIT 101'') (Some 100) [Statement (Some 101)]
     = lit ''SELECT * FROM t''"
  by (simp add: streaming_sql_def query0_def truthy_def eval_strip0)

lemma length_rows0: "length rows0 = 25000"
  by (simp only: rows0_def length_replicate)


lemma eval_execute0:
  "execute (env0\<lparr>execute_scalar := f\<rparr>) (lit ''SELECT * FROM t'') = Inr cursor_all"
  "execute env0 (lit ''SELECT * FROM t'') = Inr cursor_all"
  "execute env0 (lit ''SELECT * FROM t LIMIT 100'') = Inr cursor_limited"
  by (simp_all add: env0_def cursor_all_def cursor_limited_def lit_def)




lemma command0_fields:
  "client_id command0 = lit ''abc''" "streaming command0"
  "subfolder command0 = lit ''etc''" "filename command0 = lit ''out.csv''"
  by (simp_all add: command0_def init_command_def eval_subfolder eval_filename)

lemma eval_path0:
  "work_dir E = lit ''/home/u/work'' \<Longrightarrow> makedirs_error E = (\<lambda>d. None) \<Longrightarrow>
   get_workspace_path E command0 world0
     = (Inr (lit ''/home/u/work/etc/out.csv''), world0\<lparr>dirs := {lit ''/home/u/work/etc''}\<rparr>)"
  unfolding get_workspace_path_def command0_fields
  by (simp add: world0_def path_join_def py_strip_ws_def py_isspace_def lit_def)

section \<open>Facts about stripping the LIMIT clause\<close>












































section \<open>Claims about the PathSanitizer\<close>

text \<open>
  C5, amended. \<open>sanitize_filename\<close> strips the directory component, replaces every
  character that is neither in \<open>[A-Za-z0-9_.-]\<close> nor an alphanumeric beyond ASCII with an
  underscore, strips leading dots, puts \<open>export\<close> for an empty result and appends \<open>.csv\<close>
  unless the name ends in it in some letter case. The class \<open>\w\<close> of the substitution is
  Unicode aware, so letters and digits beyond ASCII are kept, where the claim has them
  replaced.
\<close>

theorem sanitize_filename_steps:
  "sanitize_filename U f
   = sanitizeFilename_spec (\<lambda>c. if c < 128 then filename_whitelist c else isalnum_hi U c) f"
proof -
  have "filename_class U = (\<lambda>c. if c < 128 then filename_whitelist c else isalnum_hi U c)"
    by (rule ext) (rule filename_class_ascii)
  then show ?thesis using sanitize_filename_alt [of U f] by simp
qed

text \<open>
  The claim as stated fails on the one-letter name U+00E9: the code keeps the letter, the
  whitelist \<open>[A-Za-z0-9_.-]\<close> would replace it.
\<close>

lemma eval_filename_letter: "sanitize_filename latin1 [233] = [233, 46, 99, 115, 118]"
  by code_simp

lemma eval_filename_letter_claimed:
  "sanitizeFilename_spec filename_whitelist [233] = [95, 46, 99, 115, 118]"
  by code_simp

theorem sanitize_filename_keeps_letter:
  "sanitize_filename latin1 [233] = [233, 46, 99, 115, 118]
   \<and> sanitize_filename latin1 [233] \<noteq> sanitizeFilename_spec filename_whitelist [233]"
  unfolding eval_filename_letter eval_filename_letter_claimed by simp

text \<open>
  C6, amended. \<open>sanitize_filename\<close> is idempotent, its result is never empty, and the result
  is one or more characters of \<open>[\w.-]\<close> followed by \<open>.csv\<close> in some letter case: a suffix
  the name already has is tested without regard to case and kept as it is written.
\<close>

theorem sanitize_filename_idempotent:
  "sanitize_filename U (sanitize_filename U f) = sanitize_filename U f
   \<and> sanitize_filename U f \<noteq> []
   \<and> matches_csv_pattern_ci U (sanitize_filename U f)"
  using sanitize_filename_idem [of U f] sanitize_filename_facts(2) [of U f]
    sanitize_filename_shape [of U f] by simp

text \<open>
  The pattern \<open>^[\w.-]+\.csv$\<close> itself is case sensitive and does not match the result for
  \<open>A.CSV\<close>, which is returned unchanged.
\<close>

lemma eval_filename_upper: "sanitize_filename latin1 (lit ''A.CSV'') = lit ''A.CSV''"
  by code_simp

lemma eval_pattern_upper: "\<not> matches_csv_pattern latin1 (lit ''A.CSV'')"
  by code_simp

theorem sanitize_filename_upper_suffix:
  "sanitize_filename latin1 (lit ''A.CSV'') = lit ''A.CSV''
   \<and> \<not> matches_csv_pattern latin1 (sanitize_filename latin1 (lit ''A.CSV''))"
  unfolding eval_filename_upper using eval_pattern_upper by simp

text \<open>
  C4, amended. \<open>sanitize_subfolder\<close> removes the \<open>..\<close> substrings, trims slashes, splits on
  the slash, and in each segment replaces every character outside \<open>[\w-]\<close> (on ASCII:
  \<open>[A-Za-z0-9_-]\<close>, the dot is not allowed) with an underscore and then strips the
  underscores at both ends; empty segments are dropped, the others joined with slashes, and
  \<open>sql_exports\<close> is returned when none is left.
\<close>

theorem sanitize_subfolder_steps:
  "sanitize_subfolder U s
   = sanitizeSubfolder_spec
       (\<lambda>seg. trim 95 (whitelist_segment
          (\<lambda>c. if c < 128 then filename_whitelist c \<and> c \<noteq> 46 else isalnum_hi U c) seg)) s"
proof -
  have "subfolder_class U = (\<lambda>c. if c < 128 then filename_whitelist c \<and> c \<noteq> 46 else isalnum_hi U c)"
    by (rule ext) (rule subfolder_class_ascii)
  then show ?thesis using sanitize_subfolder_alt [of U s] by simp
qed

text \<open>
  With the whitelist of the file names and no stripping of underscores, as the claim has
  it, \<open>_v1.2\<close> would be returned as it is; the code returns \<open>v1_2\<close>.
\<close>

lemma eval_subfolder_dot: "sanitize_subfolder latin1 (lit ''_v1.2'') = lit ''v1_2''"
  by code_simp

lemma eval_subfolder_dot_claimed:
  "sanitizeSubfolder_spec (whitelist_segment filename_whitelist) (lit ''_v1.2'') = lit ''_v1.2''"
  by code_simp

theorem sanitize_subfolder_dot_underscore:
  "sanitize_subfolder latin1 (lit ''_v1.2'') = lit ''v1_2''
   \<and> sanitize_subfolder latin1 (lit ''_v1.2'')
       \<noteq> sanitizeSubfolder_spec (whitelist_segment filename_whitelist) (lit ''_v1.2'')"
  unfolding eval_subfolder_dot eval_subfolder_dot_claimed by (simp add: lit_def)

text \<open>
  C7. The result of \<open>sanitize_subfolder\<close> has no segment \<open>..\<close>, whatever the input. Neither
  has the destination below the workspace root, which does not start with a slash, and the
  path the command resolves is the workspace root joined with that destination.
\<close>

theorem sanitize_subfolder_no_parent:
  "lit ''..'' \<notin> set (py_split (sanitize_subfolder U s) 47)
   \<and> lit ''..'' \<notin> set (py_split (relative_destination U s fname) 47)
   \<and> hd (relative_destination U s fname) \<noteq> 47
   \<and> (get_workspace_path E (init_command U cid fname s strm) w = (Inr p, w1)
        \<longrightarrow> p = path_join (work_dir E) (relative_destination U s fname))"
  using no_dotdot_subfolder [of U s] workspace_path_shape [of E U cid fname s strm w p w1]
    relative_destination_facts(1,3) [of U s fname] by blast

theorem sanitize_subfolder_no_parent_witness:
  "get_workspace_path env0 (init_command latin1 (lit ''abc'') (lit ''out'') (lit ''../../etc'') True) world0
     = (Inr (lit ''/home/u/work/etc/out.csv''), world0\<lparr>dirs := {lit ''/home/u/work/etc''}\<rparr>)
   \<and> lit ''/home/u/work/etc/out.csv''
       = path_join (work_dir env0) (relative_destination latin1 (lit ''../../etc'') (lit ''out''))"
proof -
  have run: "get_workspace_path env0 (init_command latin1 (lit ''abc'') (lit ''out'') (lit ''../../etc'') True) world0
     = (Inr (lit ''/home/u/work/etc/out.csv''), world0\<lparr>dirs := {lit ''/home/u/work/etc''}\<rparr>)"
    unfolding get_workspace_path_def init_command_def eval_subfolder eval_filename
    by (simp add: eval_subfolder eval_filename env0_def
        world0_def path_join_def py_strip_ws_def py_isspace_def lit_def)
  from sanitize_subfolder_no_parent [of latin1 "lit ''../../etc''" "lit ''out''" env0 "lit ''abc''" True world0]
    run show ?thesis by blast
qed

section \<open>Claims about the LimitResolver\<close>

text \<open>
  C3. When \<open>select_sql\<close> is set (a string that is not empty, as the test \<open>if select_sql\<close>
  reads it), the resolution returns it as it is, with no limit. Otherwise the statement
  parser is run on \<open>executed_sql\<close>; its exception is passed on and an empty script is an
  \<open>IndexError\<close>; else the SQL is \<open>executed_sql\<close> and the limit is the one of the last
  statement, lowered by exactly one when there is one and the limiting factor is QUERY,
  DROPDOWN or QUERY_AND_DROPDOWN. A detected limit of 101 with the factor QUERY resolves to
  100.
\<close>

theorem get_sql_and_limit_resolves:
  "(truthy (select_sql q) \<longrightarrow>
      (\<exists>s. select_sql q = Some s \<and> get_sql_and_limit E q = Inr (s, None)))
   \<and> (\<not> truthy (select_sql q) \<longrightarrow>
      get_sql_and_limit E q =
        (case parse_script E (executed_sql q) (engine q) of
           Inl e \<Rightarrow> Inl e
         | Inr statements \<Rightarrow>
             if statements = [] then Inl IndexError
             else Inr (executed_sql q,
                       case get_limit_value (last statements) of
                         None \<Rightarrow> None
                       | Some detected \<Rightarrow>
                           if limiting_factor q = QUERY \<or> limiting_factor q = DROPDOWN
                              \<or> limiting_factor q = QUERY_AND_DROPDOWN
                           then Some (detected - 1) else Some detected)))"
proof (intro conjI impI)
  assume t: "truthy (select_sql q)"
  then obtain s where "select_sql q = Some s" using truthy_Some by blast
  then show "\<exists>s. select_sql q = Some s \<and> get_sql_and_limit E q = Inr (s, None)"
    using t by (simp add: get_sql_and_limit_def)
next
  assume "\<not> truthy (select_sql q)"
  then show "get_sql_and_limit E q =
        (case parse_script E (executed_sql q) (engine q) of
           Inl e \<Rightarrow> Inl e
         | Inr statements \<Rightarrow>
             if statements = [] then Inl IndexError
             else Inr (executed_sql q,
                       case get_limit_value (last statements) of
                         None \<Rightarrow> None
                       | Some detected \<Rightarrow>
                           if limiting_factor q = QUERY \<or> limiting_factor q = DROPDOWN
                              \<or> limiting_factor q = QUERY_AND_DROPDOWN
                           then Some (detected - 1) else Some detected))"
    by (simp add: get_sql_and_limit_def py_last_def Let_def split: sum.splits option.splits)
qed

theorem get_sql_and_limit_resolves_witness:
  "get_sql_and_limit env0 query0 = Inr (lit ''SELECT * FROM t LIMIT 101'', Some 100)
   \<and> get_sql_and_limit env0 query1 = Inr (lit ''SELECT * FROM t LIMIT 100'', None)"
proof -
  have t1: "truthy (select_sql query1)" by (simp add: query1_def truthy_def lit_def)
  have s1: "select_sql query1 = Some (lit ''SELECT * FROM t LIMIT 100'')" by (simp add: query1_def)
  from get_sql_and_limit_resolves [of query1 env0] t1 s1
  have a: "get_sql_and_limit env0 query1 = Inr (lit ''SELECT * FROM t LIMIT 100'', None)" by auto
  from get_sql_and_limit_resolves [of query0 env0] query0_falsy
  have "get_sql_and_limit env0 query0 =
        (case parse_script env0 (executed_sql query0) (engine query0) of
           Inl e \<Rightarrow> Inl e
         | Inr statements \<Rightarrow>
             if statements = [] then Inl IndexError
             else Inr (executed_sql query0,
                       case get_limit_value (last statements) of
                         None \<Rightarrow> None
                       | Some detected \<Rightarrow>
                           if limiting_factor query0 = QUERY \<or> limiting_factor query0 = DROPDOWN
                              \<or> limiting_factor query0 = QUERY_AND_DROPDOWN
                           then Some (detected - 1) else Some detected))" by blast
  then have b: "get_sql_and_limit env0 query0 = Inr (lit ''SELECT * FROM t LIMIT 101'', Some 100)"
    by (simp add: env0_def query0_def)
  show ?thesis using a b by simp
qed

section \<open>Claims about the ExportCoordinator\<close>

text \<open>
  C9. For a client id with no stored query, \<open>run\<close> fails with the error of type
  \<open>RESULTS_BACKEND_ERROR\<close> and status 404 and leaves the state as it found it: no directory
  is created, no file written, no progress entry made.
\<close>

theorem run_unknown_client:
  "queries E cid = None \<longrightarrow>
     run E (init_command (tables E) cid fname sub strm) w
       = (Inl (SupersetErrorException RESULTS_BACKEND_ERROR 404), w)"
  by (simp add: run_def validate_def init_command_def)

theorem run_unknown_client_witness:
  "queries env0 (lit ''zzz'') = None
   \<and> run env0 (init_command (tables env0) (lit ''zzz'') (lit ''out'') (lit ''etc'') True) world0
       = (Inl (SupersetErrorException RESULTS_BACKEND_ERROR 404), world0)
   \<and> dirs world0 = {} \<and> files world0 (lit ''/home/u/work/etc/out.csv'') = None"
proof -
  have a: "queries env0 (lit ''zzz'') = None" by (simp add: env0_def lit_def)
  from run_unknown_client [of env0 "lit ''zzz''" "lit ''out''" "lit ''etc''" True world0] a
  show ?thesis by (simp add: world0_def)
qed

section \<open>Claims about the StreamingExporter\<close>



text \<open>
  C8. Once the SQL is resolved and the connection is open, the count query cannot make the
  export fail: the count step returns whether the query returns a number or raises, the
  entry then has the status \<open>exporting\<close> and as \<open>total\<close> the number counted, or still -1 when
  the query raised, and the export goes on with the execution of the query itself. A
  failure of that execution does abort the export; when neither it nor the file fails, the
  export returns all rows whatever the count query did.
\<close>

theorem count_failure_absorbed:
  assumes "get_sql_and_limit E q = Inr (sql0, limit)"
    and "parse_script E sql0 (engine q) = Inr stmts"
    and "connect_error E = None"
  shows "\<exists>w2. count_rows E cid (streaming_sql q (tables E) sql0 limit stmts) (start_progress w cid)
               = (Inr (), w2)
           \<and> get_export_progress w2 cid
               = Some \<lparr>processed = 0,
                       total = (case execute_scalar E (count_sql (streaming_sql q (tables E) sql0 limit stmts)) of
                                  Inr n \<Rightarrow> n | Inl e \<Rightarrow> - 1),
                       status = lit ''exporting''\<rparr>
           \<and> stream_to_file E q cid fp w
               = export_rows E cid fp (streaming_sql q (tables E) sql0 limit stmts) w2
           \<and> (\<forall>e. execute E (streaming_sql q (tables E) sql0 limit stmts) = Inl e
                 \<longrightarrow> stream_to_file E q cid fp w = (Inl e, w2))
           \<and> (\<forall>cur. execute E (streaming_sql q (tables E) sql0 limit stmts) = Inr cur
                  \<and> fetch_error cur = None \<and> open_error E fp = None
                  \<and> list_all (\<lambda>r. write_error E r = None) (keys cur # pending cur)
                 \<longrightarrow> fst (stream_to_file E q cid fp w)
                     = Inr \<lparr>result_status = lit ''success'', path = fp,
                            row_count = int (length (pending cur))\<rparr>)"
proof -
  let ?sql = "streaming_sql q (tables E) sql0 limit stmts"
  from stream_to_file_continue [OF assms, of cid w fp]
  obtain w2 where a: "count_rows E cid ?sql (start_progress w cid) = (Inr (), w2)"
    and b: "get_export_progress w2 cid
               = Some \<lparr>processed = 0,
                       total = (case execute_scalar E (count_sql ?sql) of Inr n \<Rightarrow> n | Inl e \<Rightarrow> - 1),
                       status = lit ''exporting''\<rparr>"
    and c: "stream_to_file E q cid fp w = export_rows E cid fp ?sql w2" by blast
  have d: "\<forall>e. execute E ?sql = Inl e \<longrightarrow> stream_to_file E q cid fp w = (Inl e, w2)"
    unfolding c by (simp add: export_rows_def)
  have e: "\<forall>cur. execute E ?sql = Inr cur \<and> fetch_error cur = None \<and> open_error E fp = None
                  \<and> list_all (\<lambda>r. write_error E r = None) (keys cur # pending cur)
                 \<longrightarrow> fst (stream_to_file E q cid fp w)
                     = Inr \<lparr>result_status = lit ''success'', path = fp,
                            row_count = int (length (pending cur))\<rparr>"
  proof (intro allI impI)
    fix cur
    assume h: "execute E ?sql = Inr cur \<and> fetch_error cur = None \<and> open_error E fp = None
                  \<and> list_all (\<lambda>r. write_error E r = None) (keys cur # pending cur)"
    then have h1: "execute E ?sql = Inr cur" and h2: "fetch_error cur = None"
      and h3: "open_error E fp = None"
      and h4: "\<forall>r \<in> set (keys cur # pending cur). write_error E r = None"
      by (simp_all add: list_all_iff)
    from stream_to_file_ok [OF assms h1 h2 h3 h4, of cid w]
    obtain res w1 where ok: "stream_to_file E q cid fp w = (Inr res, w1)" by blast
    from stream_to_file_success [OF ok] assms(1,2) h
    have "res = \<lparr>result_status = lit ''success'', path = fp, row_count = int (length (pending cur))\<rparr>"
      by auto
    then show "fst (stream_to_file E q cid fp w)
                     = Inr \<lparr>result_status = lit ''success'', path = fp,
                            row_count = int (length (pending cur))\<rparr>"
      using ok by simp
  qed
  show ?thesis using a b c d e by (intro exI [of _ w2] conjI)
qed

theorem count_failure_absorbed_witness:
  "\<exists>w2. count_rows env_count_fails (lit ''abc'') (lit ''SELECT * FROM t'')
             (start_progress world0 (lit ''abc'')) = (Inr (), w2)
         \<and> get_export_progress w2 (lit ''abc'')
             = Some \<lparr>processed = 0, total = - 1, status = lit ''exporting''\<rparr>
         \<and> fst (stream_to_file env_count_fails query0 (lit ''abc'') (lit ''/home/u/work/etc/out.csv'') world0)
             = Inr \<lparr>result_status = lit ''success'', path = lit ''/home/u/work/etc/out.csv'',
                     row_count = 25000\<rparr>"
proof -
  let ?P = "lit ''/home/u/work/etc/out.csv''"
  let ?E = "env_count_fails"
  have t: "tables ?E = latin1" "connect_error ?E = None" "open_error ?E ?P = None"
    by (simp_all add: env_count_fails_def env0_def)
  have sc: "execute_scalar ?E (count_sql (lit ''SELECT * FROM t'')) = Inl (Raised (lit ''timeout''))"
    by (simp add: env_count_fails_def)
  have ex: "execute ?E (lit ''SELECT * FROM t'') = Inr cursor_all"
    unfolding env_count_fails_def by (rule eval_execute0)
  have wr: "list_all (\<lambda>r. write_error ?E r = None) (keys cursor_all # pending cursor_all)"
    by (simp add: env_count_fails_def env0_def list_all_iff)
  have fe: "fetch_error cursor_all = None" by (simp add: cursor_all_def)
  have r: "get_sql_and_limit ?E query0 = Inr (lit ''SELECT * FROM t LIMIT 101'', Some 100)"
    unfolding env_count_fails_def by (rule eval_resolve0)
  have p: "parse_script ?E (lit ''SELECT * FROM t LIMIT 101'') (engine query0)
      = Inr [Statement (Some 101)]"
    unfolding env_count_fails_def by (rule eval_parse0)
  from count_failure_absorbed [OF r p t(2), of "lit ''abc''" world0 ?P]
  obtain w2 where
    a: "count_rows ?E (lit ''abc'') (lit ''SELECT * FROM t'') (start_progress world0 (lit ''abc''))
          = (Inr (), w2)"
    and b: "get_export_progress w2 (lit ''abc'')
          = Some \<lparr>processed = 0,
                  total = (case execute_scalar ?E (count_sql (lit ''SELECT * FROM t'')) of
                             Inr n \<Rightarrow> n | Inl e \<Rightarrow> - 1),
                  status = lit ''exporting''\<rparr>"
    and c: "\<forall>cur. execute ?E (lit ''SELECT * FROM t'') = Inr cur
                  \<and> fetch_error cur = None \<and> open_error ?E ?P = None
                  \<and> list_all (\<lambda>r. write_error ?E r = None) (keys cur # pending cur)
                 \<longrightarrow> fst (stream_to_file ?E query0 (lit ''abc'') ?P world0)
                     = Inr \<lparr>result_status = lit ''success'', path = ?P,
                            row_count = int (length (pending cur))\<rparr>"
    unfolding t(1) eval_sql0 by blast
  have b': "get_export_progress w2 (lit ''abc'')
          = Some \<lparr>processed = 0, total = - 1, status = lit ''exporting''\<rparr>"
    using b unfolding sc by simp
  have "fst (stream_to_file ?E query0 (lit ''abc'') ?P world0)
          = Inr \<lparr>result_status = lit ''success'', path = ?P,
                  row_count = int (length (pending cursor_all))\<rparr>"
    using c ex fe t(3) wr by blast
  then have c': "fst (stream_to_file ?E query0 (lit ''abc'') ?P world0)
          = Inr \<lparr>result_status = lit ''success'', path = ?P, row_count = 25000\<rparr>"
    using length_rows0 by (simp add: cursor_all_def)
  show ?thesis using a b' c' by blast
qed

text \<open>
  C10. When a streaming export fails after its progress entry was created (the query was
  found, the destination resolved, the SQL resolved and parsed), \<open>run\<close> raises the error of
  status 500 and returns the state as \<open>_stream_to_file\<close> left it: every entry assigned to
  the client id has the status \<open>counting\<close> or \<open>exporting\<close>, none the status \<open>failed\<close>, and the
  last of them is the one in the store.
\<close>

theorem failed_export_keeps_status:
  assumes "validate E cmd = Inr q"
    and "get_workspace_path E cmd w = (Inr fp, w0)"
    and "get_sql_and_limit E q = Inr (sql0, limit)"
    and "parse_script E sql0 (engine q) = Inr stmts"
    and "streaming cmd"
    and "run E cmd w = (Inl e, w1)"
  shows "\<exists>ex es. stream_to_file E q (client_id cmd) fp w0 = (Inl ex, w1)
           \<and> e = SupersetErrorException GENERIC_BACKEND_ERROR 500
           \<and> es \<noteq> []
           \<and> trace w1 = trace w0 @ map (\<lambda>en. (progress_store w0)(client_id cmd \<mapsto> en)) es
           \<and> (\<forall>en \<in> set es. (status en = lit ''counting'' \<or> status en = lit ''exporting'')
                 \<and> status en \<noteq> lit ''failed'')
           \<and> get_export_progress w1 (client_id cmd) = Some (last es)"
proof -
  let ?cid = "client_id cmd"
  obtain x w2 where st: "stream_to_file E q ?cid fp w0 = (x, w2)"
    by (cases "stream_to_file E q ?cid fp w0")
  have r: "run E cmd w = (case x of Inr r \<Rightarrow> (Inr r, w2)
             | Inl ex \<Rightarrow> (Inl (SupersetErrorException GENERIC_BACKEND_ERROR 500), w2))"
    using assms(1,2,5) st by (simp add: run_def split: sum.splits)
  obtain ex where x: "x = Inl ex" using r assms(6) by (cases x) simp_all
  have e: "e = SupersetErrorException GENERIC_BACKEND_ERROR 500" and w: "w2 = w1"
    using r assms(6) x by simp_all
  from stream_to_file_failure [OF assms(3,4) st [unfolded x w]]
  obtain es rest where ee: "export_entries E (streaming_sql q (tables E) sql0 limit stmts) = es @ rest"
    and t: "tracks (progress_store w0) ?cid (trace w0) es w1" by blast
  have ne: "es \<noteq> []" using t by (simp add: tracks_def)
  have diff: "lit ''counting'' \<noteq> lit ''failed''" "lit ''exporting'' \<noteq> lit ''failed''"
    by (simp_all add: lit_def)
  have st_ok: "\<forall>en \<in> set es. (status en = lit ''counting'' \<or> status en = lit ''exporting'')
                 \<and> status en \<noteq> lit ''failed''"
  proof
    fix en assume "en \<in> set es"
    then have "en \<in> set (export_entries E (streaming_sql q (tables E) sql0 limit stmts))"
      unfolding ee by simp
    from export_entries_status [OF this] diff
    show "(status en = lit ''counting'' \<or> status en = lit ''exporting'') \<and> status en \<noteq> lit ''failed''"
      by auto
  qed
  show ?thesis
    using st [unfolded x w] e ne tracks_current [OF t] st_ok
    by (intro exI [of _ ex] exI [of _ es]) simp
qed

theorem failed_export_keeps_status_witness:
  "\<exists>w1 es. run env_execute_fails command0 world0
             = (Inl (SupersetErrorException GENERIC_BACKEND_ERROR 500), w1)
         \<and> es \<noteq> []
         \<and> get_export_progress w1 (lit ''abc'') = Some (last es)
         \<and> last es = \<lparr>processed = 0, total = 25000, status = lit ''exporting''\<rparr>"
proof -
  let ?E = "env_execute_fails"
  let ?P = "lit ''/home/u/work/etc/out.csv''"
  let ?w0 = "world0\<lparr>dirs := {lit ''/home/u/work/etc''}\<rparr>"
  have v: "validate ?E command0 = Inr query0"
    by (simp add: validate_def command0_fields env_execute_fails_def env0_def)
  have gp: "get_workspace_path ?E command0 world0 = (Inr ?P, ?w0)"
    by (rule eval_path0) (simp_all add: env_execute_fails_def env0_def)
  have r: "get_sql_and_limit ?E query0 = Inr (lit ''SELECT * FROM t LIMIT 101'', Some 100)"
    unfolding env_execute_fails_def by (rule eval_resolve0)
  have p: "parse_script ?E (lit ''SELECT * FROM t LIMIT 101'') (engine query0)
      = Inr [Statement (Some 101)]"
    unfolding env_execute_fails_def by (rule eval_parse0)
  have c: "connect_error ?E = None" by (simp add: env_execute_fails_def env0_def)
  have t: "tables ?E = latin1" by (simp add: env_execute_fails_def env0_def)
  from stream_to_file_continue [OF r p c, of "lit ''abc''" ?w0 ?P]
  obtain w2 where
    g: "get_export_progress w2 (lit ''abc'')
          = Some \<lparr>processed = 0,
                  total = (case execute_scalar ?E (count_sql (lit ''SELECT * FROM t'')) of
                             Inr n \<Rightarrow> n | Inl e \<Rightarrow> - 1),
                  status = lit ''exporting''\<rparr>"
    and s: "stream_to_file ?E query0 (lit ''abc'') ?P ?w0
          = export_rows ?E (lit ''abc'') ?P (lit ''SELECT * FROM t'') w2"
    unfolding t eval_sql0 by blast
  have g': "get_export_progress w2 (lit ''abc'')
          = Some \<lparr>processed = 0, total = 25000, status = lit ''exporting''\<rparr>"
    using g by (simp add: env_execute_fails_def env0_def)
  have s': "stream_to_file ?E query0 (lit ''abc'') ?P ?w0 = (Inl (Raised (lit ''connection lost'')), w2)"
    unfolding s by (simp add: export_rows_def env_execute_fails_def)
  have run: "run ?E command0 world0 = (Inl (SupersetErrorException GENERIC_BACKEND_ERROR 500), w2)"
    using v gp s' by (simp add: run_def command0_fields)
  from failed_export_keeps_status [OF v gp r p command0_fields(2) run]
  obtain es where ne: "es \<noteq> []"
    and cur: "get_export_progress w2 (client_id command0) = Some (last es)" by blast
  have "last es = \<lparr>processed = 0, total = 25000, status = lit ''exporting''\<rparr>"
    using cur g' by (simp add: command0_fields)
  then show ?thesis using run ne cur by (auto simp: command0_fields)
qed




end
